theory Spec2Isabelle
  imports Main "HOL-Library.Word"
begin

chapter \<open>The translator page, embedded\<close>

section \<open>JavaScript strings and numbers\<close>

text \<open>
  A JavaScript string is a sequence of UTF-16 code units; \<open>length\<close>, \<open>slice\<close>,
  \<open>split\<close> and \<open>trim\<close> all count code units. ASCII and Latin-1 literals of the
  source are written through \<open>str\<close>; other literals are given by their code units.
\<close>

type_synonym jsstring = "16 word list"

definition str :: "string \<Rightarrow> jsstring" where
  "str cs = map (\<lambda>c. of_nat (of_char c)) cs"

text \<open>
  \<open>Number.prototype.toString\<close> on a non-negative integer below \<open>10^21\<close> (every
  value of \<open>Date.now()\<close> is one): the decimal digits, most significant first.
\<close>

definition digit :: "nat \<Rightarrow> 16 word" where
  "digit d = of_nat (48 + d)"

function toString :: "nat \<Rightarrow> jsstring" where
  "toString n = (if n < 10 then [digit n] else toString (n div 10) @ [digit (n mod 10)])"
  by pat_completeness auto
termination
  by (relation "measure (\<lambda>n. n)") auto

declare toString.simps [simp del]

text \<open>
  \<open>String.prototype.trim\<close> removes WhiteSpace and LineTerminator code units
  (ECMA-262: TAB, VT, FF, SP, NBSP, ZWNBSP, the category Zs, LF, CR, LS, PS) from both ends.
\<close>

definition isWhiteSpace :: "16 word \<Rightarrow> bool" where
  "isWhiteSpace c \<longleftrightarrow>
     c \<in> set [0x9, 0xA, 0xB, 0xC, 0xD, 0x20, 0xA0, 0x1680,
              0x2000, 0x2001, 0x2002, 0x2003, 0x2004, 0x2005, 0x2006, 0x2007,
              0x2008, 0x2009, 0x200A, 0x2028, 0x2029, 0x202F, 0x205F, 0x3000, 0xFEFF]"

definition trim :: "jsstring \<Rightarrow> jsstring" where
  "trim s = rev (dropWhile isWhiteSpace (rev (dropWhile isWhiteSpace s)))"

text \<open>\<open>s.split(sep)\<close> for a separator of one code unit; the result is never empty.\<close>

fun split :: "16 word \<Rightarrow> jsstring \<Rightarrow> jsstring list" where
  "split sep [] = [[]]"
| "split sep (c # cs) =
     (if c = sep then [] # split sep cs
      else (case split sep cs of
              p # ps \<Rightarrow> (c # p) # ps
            | [] \<Rightarrow> [[c]]))"

section \<open>JSON\<close>

text \<open>
  The values \<open>JSON.parse\<close> produces and \<open>JSON.stringify\<close> consumes. A number is kept
  as its literal (for a non-negative integer below \<open>10^21\<close> that is its \<open>toString\<close>);
  an object lists its properties in creation order, which is the order
  \<open>JSON.stringify\<close> enumerates them in when no key is an array index.
\<close>

datatype json = JNull | JBool bool | JNum jsstring | JStr jsstring
  | JArr "json list" | JObj "(jsstring \<times> json) list"

subsection \<open>\<open>JSON.stringify\<close>\<close>

text \<open>
  ECMA-262 QuoteJSONString: the two-character escapes, \<open>\u00xx\<close> for the other control
  characters, \<open>\udxxx\<close> for a surrogate that is not part of a pair, every other code
  unit as it is. No indentation is requested, so no white space is emitted.
\<close>

definition hexDigit :: "nat \<Rightarrow> 16 word" where
  "hexDigit d = of_nat (if d < 10 then 48 + d else 87 + d)"

definition unicodeEscape :: "16 word \<Rightarrow> jsstring" where
  "unicodeEscape c =
     [0x5C, 0x75, hexDigit (unat c div 4096), hexDigit (unat c div 256 mod 16),
      hexDigit (unat c div 16 mod 16), hexDigit (unat c mod 16)]"

definition isLeadingSurrogate :: "16 word \<Rightarrow> bool" where
  "isLeadingSurrogate c \<longleftrightarrow> 0xD800 \<le> c \<and> c \<le> 0xDBFF"

definition isTrailingSurrogate :: "16 word \<Rightarrow> bool" where
  "isTrailingSurrogate c \<longleftrightarrow> 0xDC00 \<le> c \<and> c \<le> 0xDFFF"

definition quoteUnit :: "16 word \<Rightarrow> jsstring" where
  "quoteUnit c =
     (if c = 0x08 then [0x5C, 0x62]
      else if c = 0x09 then [0x5C, 0x74]
      else if c = 0x0A then [0x5C, 0x6E]
      else if c = 0x0C then [0x5C, 0x66]
      else if c = 0x0D then [0x5C, 0x72]
      else if c = 0x22 then [0x5C, 0x22]
      else if c = 0x5C then [0x5C, 0x5C]
      else if c < 0x20 then unicodeEscape c
      else [c])"

fun quoteChars :: "jsstring \<Rightarrow> jsstring" where
  "quoteChars [] = []"
| "quoteChars [c] =
     (if isLeadingSurrogate c \<or> isTrailingSurrogate c then unicodeEscape c else quoteUnit c)"
| "quoteChars (c # d # cs) =
     (if isLeadingSurrogate c then
        (if isTrailingSurrogate d then c # d # quoteChars cs
         else unicodeEscape c @ quoteChars (d # cs))
      else if isTrailingSurrogate c then unicodeEscape c @ quoteChars (d # cs)
      else quoteUnit c @ quoteChars (d # cs))"

definition quoteJSONString :: "jsstring \<Rightarrow> jsstring" where
  "quoteJSONString s = [0x22] @ quoteChars s @ [0x22]"

fun serialize :: "json \<Rightarrow> jsstring"
  and serializeElements :: "json list \<Rightarrow> jsstring"
  and serializeMembers :: "(jsstring \<times> json) list \<Rightarrow> jsstring" where
  "serialize JNull = str ''null''"
| "serialize (JBool b) = (if b then str ''true'' else str ''false'')"
| "serialize (JNum lit) = lit"
| "serialize (JStr s) = quoteJSONString s"
| "serialize (JArr vs) = [0x5B] @ serializeElements vs @ [0x5D]"
| "serialize (JObj kvs) = [0x7B] @ serializeMembers kvs @ [0x7D]"
| "serializeElements [] = []"
| "serializeElements [v] = serialize v"
| "serializeElements (v # w # vs) = serialize v @ [0x2C] @ serializeElements (w # vs)"
| "serializeMembers [] = []"
| "serializeMembers [(k, v)] = quoteJSONString k @ [0x3A] @ serialize v"
| "serializeMembers ((k, v) # m # kvs) =
     quoteJSONString k @ [0x3A] @ serialize v @ [0x2C] @ serializeMembers (m # kvs)"

subsection \<open>\<open>JSON.parse\<close>\<close>

text \<open>
  A recursive-descent reader of the JSON grammar of ECMA-262 (white space, the three
  keywords, numbers, strings with their escapes, arrays, objects; a repeated key keeps its
  first position and its last value). \<open>None\<close> is the \<open>SyntaxError\<close>. The descent
  carries fuel; \<open>JSON_parse\<close> supplies more than the length of the text.
\<close>

definition isJSONWhiteSpace :: "16 word \<Rightarrow> bool" where
  "isJSONWhiteSpace c \<longleftrightarrow> c = 0x09 \<or> c = 0x0A \<or> c = 0x0D \<or> c = 0x20"

definition skipWhiteSpace :: "jsstring \<Rightarrow> jsstring" where
  "skipWhiteSpace cs = dropWhile isJSONWhiteSpace cs"

definition isDigit :: "16 word \<Rightarrow> bool" where
  "isDigit c \<longleftrightarrow> 0x30 \<le> c \<and> c \<le> 0x39"

definition hexValue :: "16 word \<Rightarrow> nat option" where
  "hexValue c =
     (if 0x30 \<le> c \<and> c \<le> 0x39 then Some (unat c - 48)
      else if 0x61 \<le> c \<and> c \<le> 0x66 then Some (unat c - 87)
      else if 0x41 \<le> c \<and> c \<le> 0x46 then Some (unat c - 55)
      else None)"

definition hex4 :: "16 word \<Rightarrow> 16 word \<Rightarrow> 16 word \<Rightarrow> 16 word \<Rightarrow> 16 word option" where
  "hex4 a b c d =
     (case (hexValue a, hexValue b, hexValue c, hexValue d) of
        (Some x, Some y, Some z, Some w) \<Rightarrow> Some (of_nat (4096 * x + 256 * y + 16 * z + w))
      | _ \<Rightarrow> None)"

definition unescape :: "16 word \<Rightarrow> 16 word option" where
  "unescape e =
     (if e = 0x22 then Some 0x22
      else if e = 0x2F then Some 0x2F
      else if e = 0x5C then Some 0x5C
      else if e = 0x62 then Some 0x08
      else if e = 0x66 then Some 0x0C
      else if e = 0x6E then Some 0x0A
      else if e = 0x72 then Some 0x0D
      else if e = 0x74 then Some 0x09
      else None)"

definition consChar :: "16 word \<Rightarrow> (jsstring \<times> jsstring) option \<Rightarrow> (jsstring \<times> jsstring) option" where
  "consChar u r = (case r of None \<Rightarrow> None | Some (s, rest) \<Rightarrow> Some (u # s, rest))"

fun parseChars :: "jsstring \<Rightarrow> (jsstring \<times> jsstring) option" where
  "parseChars [] = None"
| "parseChars (c # cs) =
     (if c = 0x22 then Some ([], cs)
      else if c = 0x5C then
        (case cs of
           [] \<Rightarrow> None
         | e # es \<Rightarrow>
             if e = 0x75 then
               (case es of
                  h1 # h2 # h3 # h4 # r \<Rightarrow>
                    (case hex4 h1 h2 h3 h4 of
                       None \<Rightarrow> None
                     | Some u \<Rightarrow> consChar u (parseChars r))
                | _ \<Rightarrow> None)
             else
               (case unescape e of
                  None \<Rightarrow> None
                | Some u \<Rightarrow> consChar u (parseChars es)))
      else if c < 0x20 then None
      else consChar c (parseChars cs))"

definition scanFraction :: "jsstring \<Rightarrow> (jsstring \<times> jsstring) option" where
  "scanFraction cs =
     (case cs of
        [] \<Rightarrow> Some ([], cs)
      | c # r \<Rightarrow>
          if c = 0x2E then
            (if takeWhile isDigit r = [] then None
             else Some (c # takeWhile isDigit r, dropWhile isDigit r))
          else Some ([], cs))"

definition scanSign :: "jsstring \<Rightarrow> jsstring \<times> jsstring" where
  "scanSign cs =
     (case cs of
        [] \<Rightarrow> ([], cs)
      | c # r \<Rightarrow> if c = 0x2B \<or> c = 0x2D then ([c], r) else ([], cs))"

definition scanExponent :: "jsstring \<Rightarrow> (jsstring \<times> jsstring) option" where
  "scanExponent cs =
     (case cs of
        [] \<Rightarrow> Some ([], cs)
      | c # r \<Rightarrow>
          if c = 0x65 \<or> c = 0x45 then
            (case scanSign r of
               (sg, r') \<Rightarrow>
                 if takeWhile isDigit r' = [] then None
                 else Some (c # sg @ takeWhile isDigit r', dropWhile isDigit r'))
          else Some ([], cs))"

definition scanInteger :: "jsstring \<Rightarrow> (jsstring \<times> jsstring) option" where
  "scanInteger cs =
     (case cs of
        [] \<Rightarrow> None
      | d # r \<Rightarrow>
          if d = 0x30 then Some ([d], r)
          else if isDigit d then Some (d # takeWhile isDigit r, dropWhile isDigit r)
          else None)"

definition scanNumber :: "jsstring \<Rightarrow> (jsstring \<times> jsstring) option" where
  "scanNumber cs =
     (case (case cs of [] \<Rightarrow> ([], cs) | c # r \<Rightarrow> if c = 0x2D then ([c], r) else ([], cs)) of
        (neg, r0) \<Rightarrow>
          (case scanInteger r0 of
             None \<Rightarrow> None
           | Some (ip, r1) \<Rightarrow>
               (case scanFraction r1 of
                  None \<Rightarrow> None
                | Some (fp, r2) \<Rightarrow>
                    (case scanExponent r2 of
                       None \<Rightarrow> None
                     | Some (ep, r3) \<Rightarrow> Some (neg @ ip @ fp @ ep, r3)))))"

definition scanKeyword :: "jsstring \<Rightarrow> json \<Rightarrow> jsstring \<Rightarrow> (json \<times> jsstring) option" where
  "scanKeyword kw v cs =
     (if take (length kw) cs = kw then Some (v, drop (length kw) cs) else None)"

fun setProperty :: "jsstring \<Rightarrow> json \<Rightarrow> (jsstring \<times> json) list \<Rightarrow> (jsstring \<times> json) list" where
  "setProperty k v [] = [(k, v)]"
| "setProperty k v ((k', v') # ps) =
     (if k' = k then (k, v) # ps else (k', v') # setProperty k v ps)"

definition fromEntries :: "(jsstring \<times> json) list \<Rightarrow> (jsstring \<times> json) list" where
  "fromEntries kvs = foldl (\<lambda>obj (k, v). setProperty k v obj) [] kvs"

fun parseValue :: "nat \<Rightarrow> jsstring \<Rightarrow> (json \<times> jsstring) option"
  and parseElements :: "nat \<Rightarrow> jsstring \<Rightarrow> (json list \<times> jsstring) option"
  and parseMembers :: "nat \<Rightarrow> jsstring \<Rightarrow> ((jsstring \<times> json) list \<times> jsstring) option" where
  "parseValue 0 cs = None"
| "parseValue (Suc n) cs =
     (case skipWhiteSpace cs of
        [] \<Rightarrow> None
      | c # r \<Rightarrow>
          if c = 0x22 then
            (case parseChars r of None \<Rightarrow> None | Some (s, r') \<Rightarrow> Some (JStr s, r'))
          else if c = 0x5B then
            (case skipWhiteSpace r of
               [] \<Rightarrow> None
             | d # r' \<Rightarrow>
                 if d = 0x5D then Some (JArr [], r')
                 else (case parseElements n r of
                         None \<Rightarrow> None
                       | Some (vs, r'') \<Rightarrow> Some (JArr vs, r'')))
          else if c = 0x7B then
            (case skipWhiteSpace r of
               [] \<Rightarrow> None
             | d # r' \<Rightarrow>
                 if d = 0x7D then Some (JObj [], r')
                 else (case parseMembers n r of
                         None \<Rightarrow> None
                       | Some (kvs, r'') \<Rightarrow> Some (JObj (fromEntries kvs), r'')))
          else if c = 0x6E then scanKeyword (str ''null'') JNull (c # r)
          else if c = 0x74 then scanKeyword (str ''true'') (JBool True) (c # r)
          else if c = 0x66 then scanKeyword (str ''false'') (JBool False) (c # r)
          else (case scanNumber (c # r) of
                  None \<Rightarrow> None
                | Some (lit, r') \<Rightarrow> Some (JNum lit, r')))"
| "parseElements 0 cs = None"
| "parseElements (Suc n) cs =
     (case parseValue n cs of
        None \<Rightarrow> None
      | Some (v, r) \<Rightarrow>
          (case skipWhiteSpace r of
             [] \<Rightarrow> None
           | d # r' \<Rightarrow>
               if d = 0x2C then
                 (case parseElements n r' of
                    None \<Rightarrow> None
                  | Some (vs, r'') \<Rightarrow> Some (v # vs, r''))
               else if d = 0x5D then Some ([v], r')
               else None))"
| "parseMembers 0 cs = None"
| "parseMembers (Suc n) cs =
     (case skipWhiteSpace cs of
        [] \<Rightarrow> None
      | q # r \<Rightarrow>
          if q = 0x22 then
            (case parseChars r of
               None \<Rightarrow> None
             | Some (k, r1) \<Rightarrow>
                 (case skipWhiteSpace r1 of
                    [] \<Rightarrow> None
                  | colon # r2 \<Rightarrow>
                      if colon = 0x3A then
                        (case parseValue n r2 of
                           None \<Rightarrow> None
                         | Some (v, r3) \<Rightarrow>
                             (case skipWhiteSpace r3 of
                                [] \<Rightarrow> None
                              | d # r4 \<Rightarrow>
                                  if d = 0x2C then
                                    (case parseMembers n r4 of
                                       None \<Rightarrow> None
                                     | Some (kvs, r5) \<Rightarrow> Some ((k, v) # kvs, r5))
                                  else if d = 0x7D then Some ([(k, v)], r4)
                                  else None))
                      else None))
          else None)"

definition JSON_parse :: "jsstring \<Rightarrow> json option" where
  "JSON_parse cs =
     (case parseValue (Suc (length cs)) cs of
        None \<Rightarrow> None
      | Some (v, r) \<Rightarrow> if skipWhiteSpace r = [] then Some v else None)"


subsection \<open>Values that \<open>JSON.stringify\<close> writes for the page\<close>

text \<open>
  \<open>plainValue\<close> describes the values whose numbers are plain integer literals and whose
  objects have no repeated key; \<open>fuelValue\<close> bounds the fuel the reader needs for one;
  \<open>delimited\<close> describes what may follow a value inside a serialised text.
\<close>

definition isIntegerLiteral :: "jsstring \<Rightarrow> bool" where
  "isIntegerLiteral lit =
     (case lit of
        [] \<Rightarrow> False
      | d # ds \<Rightarrow> if d = 0x30 then ds = [] else isDigit d \<and> list_all isDigit ds)"

fun plainValue :: "json \<Rightarrow> bool"
  and plainElements :: "json list \<Rightarrow> bool"
  and plainMembers :: "(jsstring \<times> json) list \<Rightarrow> bool" where
  "plainValue JNull = True"
| "plainValue (JBool b) = True"
| "plainValue (JNum lit) = isIntegerLiteral lit"
| "plainValue (JStr s) = True"
| "plainValue (JArr vs) = plainElements vs"
| "plainValue (JObj kvs) = (distinct (map fst kvs) \<and> plainMembers kvs)"
| "plainElements [] = True"
| "plainElements (v # vs) = (plainValue v \<and> plainElements vs)"
| "plainMembers [] = True"
| "plainMembers ((k, v) # kvs) = (plainValue v \<and> plainMembers kvs)"

fun fuelValue :: "json \<Rightarrow> nat"
  and fuelElements :: "json list \<Rightarrow> nat"
  and fuelMembers :: "(jsstring \<times> json) list \<Rightarrow> nat" where
  "fuelValue JNull = 1"
| "fuelValue (JBool b) = 1"
| "fuelValue (JNum lit) = 1"
| "fuelValue (JStr s) = 1"
| "fuelValue (JArr vs) = Suc (fuelElements vs)"
| "fuelValue (JObj kvs) = Suc (fuelMembers kvs)"
| "fuelElements [] = 0"
| "fuelElements (v # vs) = Suc (fuelValue v + fuelElements vs)"
| "fuelMembers [] = 0"
| "fuelMembers ((k, v) # kvs) = Suc (fuelValue v + fuelMembers kvs)"

definition delimited :: "jsstring \<Rightarrow> bool" where
  "delimited rest = (case rest of [] \<Rightarrow> True | c # _ \<Rightarrow> c = 0x2C \<or> c = 0x5D \<or> c = 0x7D)"


section \<open>Data model\<close>

datatype role = User | Assistant

record Message =
  id_msg :: jsstring
  role :: role
  text_msg :: jsstring
  langLabel :: jsstring
  langCode :: jsstring

record ChatSession =
  id_chat :: jsstring
  title :: jsstring
  messages :: "Message list"
  createdAt :: nat

record Language =
  code :: jsstring
  name :: jsstring
  label :: jsstring

definition LANGUAGES :: "Language list" where
  "LANGUAGES =
     [\<lparr>code = str ''en-US'', name = str ''English'', label = str ''English''\<rparr>,
      \<lparr>code = str ''es-ES'', name = str ''Spanish'',
       label = str ''Espa'' @ [0xF1] @ str ''ol''\<rparr>,
      \<lparr>code = str ''fr-FR'', name = str ''French'',
       label = str ''Fran'' @ [0xE7] @ str ''ais''\<rparr>,
      \<lparr>code = str ''de-DE'', name = str ''German'', label = str ''Deutsch''\<rparr>,
      \<lparr>code = str ''zh-CN'', name = str ''Chinese'', label = [0x4E2D, 0x6587]\<rparr>,
      \<lparr>code = str ''hi-IN'', name = str ''Hindi'',
       label = [0x939, 0x93F, 0x928, 0x94D, 0x926, 0x940]\<rparr>,
      \<lparr>code = str ''ar-SA'', name = str ''Arabic'',
       label = [0x627, 0x644, 0x639, 0x631, 0x628, 0x64A, 0x629]\<rparr>]"

section \<open>The thread list as a JSON value\<close>

text \<open>
  \<open>JSON.stringify(chats)\<close> walks the objects of the thread list; their properties are
  in the order of the object literals of \<open>createNewChat\<close> and \<open>handleTranslate\<close> (a
  spread copy keeps the order). \<open>encChats\<close> is that walk.
\<close>

definition encRole :: "role \<Rightarrow> json" where
  "encRole r = JStr (case r of User \<Rightarrow> str ''user'' | Assistant \<Rightarrow> str ''assistant'')"

definition encMessage :: "Message \<Rightarrow> json" where
  "encMessage m =
     JObj [(str ''id'', JStr (id_msg m)), (str ''role'', encRole (role m)),
           (str ''text'', JStr (text_msg m)), (str ''langLabel'', JStr (langLabel m)),
           (str ''langCode'', JStr (langCode m))]"

definition encChat :: "ChatSession \<Rightarrow> json" where
  "encChat c =
     JObj [(str ''id'', JStr (id_chat c)), (str ''title'', JStr (title c)),
           (str ''messages'', JArr (map encMessage (messages c))),
           (str ''createdAt'', JNum (toString (createdAt c)))]"

definition encChats :: "ChatSession list \<Rightarrow> json" where
  "encChats cs = JArr (map encChat cs)"

definition JSON_stringify :: "ChatSession list \<Rightarrow> jsstring" where
  "JSON_stringify cs = serialize (encChats cs)"

text \<open>
  The page stores whatever \<open>JSON.parse\<close> returns as its thread list. The typed state of
  this theory holds the values of type \<open>ChatSession[]\<close> that the page itself writes: an
  array of objects with exactly the properties above, in that order, strings where the
  type says \<open>string\<close>, and a \<open>createdAt\<close> that is a plain integer literal of at most
  \<open>2^53\<close> (up to there every integer is a JavaScript number). \<open>decChats\<close> reads such a
  value back; it is \<open>None\<close> on every other value.
\<close>

definition asString :: "json \<Rightarrow> jsstring option" where
  "asString j = (case j of JStr s \<Rightarrow> Some s | _ \<Rightarrow> None)"

definition decRole :: "jsstring \<Rightarrow> role option" where
  "decRole r =
     (if r = str ''user'' then Some User
      else if r = str ''assistant'' then Some Assistant
      else None)"

definition digitsValue :: "jsstring \<Rightarrow> nat" where
  "digitsValue ds = foldl (\<lambda>acc d. 10 * acc + (unat d - 48)) 0 ds"

definition decTimestamp :: "json \<Rightarrow> nat option" where
  "decTimestamp j =
     (case j of
        JNum lit \<Rightarrow>
          if isIntegerLiteral lit \<and> digitsValue lit \<le> 9007199254740992
          then Some (digitsValue lit) else None
      | _ \<Rightarrow> None)"

definition decMessage :: "json \<Rightarrow> Message option" where
  "decMessage j =
     (case j of
        JObj kvs \<Rightarrow>
          if map fst kvs
             = [str ''id'', str ''role'', str ''text'', str ''langLabel'', str ''langCode'']
          then
            (case map snd kvs of
               [i, r, t, ll, lc] \<Rightarrow>
                 (case (asString i, Option.bind (asString r) decRole, asString t,
                        asString ll, asString lc) of
                    (Some i', Some r', Some t', Some ll', Some lc') \<Rightarrow>
                      Some \<lparr>id_msg = i', role = r', text_msg = t', langLabel = ll',
                            langCode = lc'\<rparr>
                  | _ \<Rightarrow> None)
             | _ \<Rightarrow> None)
          else None
      | _ \<Rightarrow> None)"

definition decMessages :: "json \<Rightarrow> Message list option" where
  "decMessages j = (case j of JArr ms \<Rightarrow> those (map decMessage ms) | _ \<Rightarrow> None)"

definition decChat :: "json \<Rightarrow> ChatSession option" where
  "decChat j =
     (case j of
        JObj kvs \<Rightarrow>
          if map fst kvs = [str ''id'', str ''title'', str ''messages'', str ''createdAt'']
          then
            (case map snd kvs of
               [i, t, ms, ca] \<Rightarrow>
                 (case (asString i, asString t, decMessages ms, decTimestamp ca) of
                    (Some i', Some t', Some ms', Some ca') \<Rightarrow>
                      Some \<lparr>id_chat = i', title = t', messages = ms', createdAt = ca'\<rparr>
                  | _ \<Rightarrow> None)
             | _ \<Rightarrow> None)
          else None
      | _ \<Rightarrow> None)"

definition decChats :: "json \<Rightarrow> ChatSession list option" where
  "decChats j = (case j of JArr cs \<Rightarrow> those (map decChat cs) | _ \<Rightarrow> None)"

definition representable :: "ChatSession list \<Rightarrow> bool" where
  "representable cs = list_all (\<lambda>c. createdAt c \<le> 9007199254740992) cs"

section \<open>Page state\<close>

text \<open>
  The \<open>useState\<close> cells of \<open>TranslatorPage\<close> that the thread and submission logic
  reads or writes, together with the two pieces of the browser it touches: the
  \<open>localStorage\<close> slot \<open>"translation-chats"\<close> (\<open>None\<close> when the key is absent) and the
  console (the first argument of every \<open>console.error\<close> call, oldest first).
  \<open>chatsChanged\<close> records that \<open>setChats\<close> was called since the last commit: the
  save effect has \<open>[chats]\<close> as its dependency list and runs only then.
\<close>

record page_state =
  chats :: "ChatSession list"
  currentChatId :: "jsstring option"
  isSidebarOpen :: bool
  inputText :: jsstring
  isTranslating :: bool
  sourceLang :: jsstring
  targetLang :: jsstring
  chatsChanged :: bool
  storage :: "jsstring option"
  console :: "jsstring list"

definition initial_state :: "jsstring option \<Rightarrow> page_state" where
  "initial_state slot =
     \<lparr>chats = [], currentChatId = None, isSidebarOpen = False, inputText = [],
      isTranslating = False, sourceLang = str ''en-US'', targetLang = str ''fr-FR'',
      chatsChanged = False, storage = slot, console = []\<rparr>"

definition setChats :: "(ChatSession list \<Rightarrow> ChatSession list) \<Rightarrow> page_state \<Rightarrow> page_state" where
  "setChats f s = s\<lparr>chats := f (chats s), chatsChanged := True\<rparr>"

section \<open>Chat management helpers\<close>

definition getCurrentChat :: "page_state \<Rightarrow> ChatSession option" where
  "getCurrentChat s = find (\<lambda>c. Some (id_chat c) = currentChatId s) (chats s)"

definition activeMessages :: "page_state \<Rightarrow> Message list" where
  "activeMessages s = (case getCurrentChat s of Some c \<Rightarrow> messages c | None \<Rightarrow> [])"

text \<open>
  \<open>createNewChat\<close> reads the clock twice when it creates a thread (\<open>id\<close>, then
  \<open>createdAt\<close>); the two readings are the parameters \<open>t_id\<close> and \<open>t_created\<close>.
\<close>

definition newChat :: "nat \<Rightarrow> nat \<Rightarrow> ChatSession" where
  "newChat t_id t_created =
     \<lparr>id_chat = toString t_id, title = str ''New Translation'', messages = [],
      createdAt = t_created\<rparr>"

definition createFresh :: "nat \<Rightarrow> nat \<Rightarrow> page_state \<Rightarrow> jsstring \<times> page_state" where
  "createFresh t_id t_created s =
     (id_chat (newChat t_id t_created),
      (setChats (\<lambda>prev. newChat t_id t_created # prev) s)
        \<lparr>currentChatId := Some (id_chat (newChat t_id t_created)), isSidebarOpen := False\<rparr>)"

definition createNewChat :: "nat \<Rightarrow> nat \<Rightarrow> page_state \<Rightarrow> jsstring \<times> page_state" where
  "createNewChat t_id t_created s =
     (case chats s of
        mostRecent # _ \<Rightarrow>
          if messages mostRecent = []
          then (id_chat mostRecent,
                s\<lparr>currentChatId := Some (id_chat mostRecent), isSidebarOpen := False\<rparr>)
          else createFresh t_id t_created s
      | [] \<Rightarrow> createFresh t_id t_created s)"

definition deleteChat :: "jsstring \<Rightarrow> page_state \<Rightarrow> page_state" where
  "deleteChat i s =
     (let newChats = filter (\<lambda>c. id_chat c \<noteq> i) (chats s);
          s1 = setChats (\<lambda>_. newChats) s
      in if currentChatId s = Some i
         then s1\<lparr>currentChatId := (case newChats of c # _ \<Rightarrow> Some (id_chat c) | [] \<Rightarrow> None)\<rparr>
         else s1)"

definition selectChat :: "jsstring \<Rightarrow> page_state \<Rightarrow> page_state" where
  "selectChat i s = s\<lparr>currentChatId := Some i, isSidebarOpen := False\<rparr>"

section \<open>Load and save effects\<close>

text \<open>
  The first effect runs once, on mount. \<open>if (saved)\<close> skips a missing key and the empty
  string alike. A \<open>SyntaxError\<close> of \<open>JSON.parse\<close> is caught and logged. A value that
  parses is stored as the thread list as it is; when it is not one the typed state can hold,
  the model stops with that value (\<open>Inl\<close>).
\<close>

definition loadEffect :: "page_state \<Rightarrow> json + page_state" where
  "loadEffect s =
     (case storage s of
        None \<Rightarrow> Inr s
      | Some saved \<Rightarrow>
          if saved = [] then Inr s
          else
            (case JSON_parse saved of
               None \<Rightarrow> Inr (s\<lparr>console := console s @ [str ''Failed to load chats'']\<rparr>)
             | Some parsed \<Rightarrow>
                 (case decChats parsed of
                    None \<Rightarrow> Inl parsed
                  | Some cs \<Rightarrow>
                      Inr ((setChats (\<lambda>_. cs) s)
                            \<lparr>currentChatId :=
                               (case cs of c # _ \<Rightarrow> Some (id_chat c)
                                | [] \<Rightarrow> currentChatId s)\<rparr>))))"

text \<open>
  The second effect runs after a render whose \<open>chats\<close> is a new array; \<open>cs\<close> is the
  \<open>chats\<close> of that render. \<open>localStorage.getItem\<close> is truthy when the key holds a
  non-empty string.
\<close>

definition saveEffect :: "ChatSession list \<Rightarrow> page_state \<Rightarrow> page_state" where
  "saveEffect cs s =
     (if cs \<noteq> [] \<or> (cs = [] \<and> storage s \<noteq> None \<and> storage s \<noteq> Some [])
      then s\<lparr>storage := Some (JSON_stringify cs)\<rparr>
      else s)"

definition commit :: "page_state \<Rightarrow> page_state" where
  "commit s =
     (if chatsChanged s then (saveEffect (chats s) s)\<lparr>chatsChanged := False\<rparr> else s)"

text \<open>
  Mounting the page: both effects run after the first render, whose \<open>chats\<close> is the
  empty array, in the order they are declared; the state set by the load effect is
  rendered next, and the save effect runs again if \<open>chats\<close> changed.
\<close>

definition mount :: "jsstring option \<Rightarrow> json + page_state" where
  "mount slot =
     (case loadEffect (initial_state slot) of
        Inl parsed \<Rightarrow> Inl parsed
      | Inr s \<Rightarrow> Inr (commit (saveEffect [] s)))"

section \<open>The translate endpoint\<close>

text \<open>
  The body of the request, as \<open>POST\<close> destructures it: each of the three properties is a
  string or is missing (\<open>None\<close>); the page is the only client and sends three strings.
  The external service answers a call in one of four ways: the call rejects; the answer's
  \<open>responseStatus\<close> is not \<open>200\<close>; it is \<open>200\<close> but \<open>responseData\<close> is missing; or
  \<open>responseData.translatedText\<close> is the given string. The endpoint answers with status
  400 and an error (\<open>BadRequest\<close>), status 500 and an error (\<open>ServerError\<close>), or status
  200 and the translated text (\<open>Success\<close>). \<open>POST\<close> returns its answer and the
  parameters \<open>(q, langpair)\<close> of the call to the external service, when it makes one.
\<close>

record translate_request =
  text_req :: "jsstring option"
  targetLang_req :: "jsstring option"
  sourceLang_req :: "jsstring option"

datatype upstream = AxiosRejects | NotStatus200 | NoResponseData | Translated jsstring

datatype http_reply = BadRequest | ServerError | Success jsstring

definition POST ::
  "translate_request option \<Rightarrow> (jsstring \<Rightarrow> jsstring \<Rightarrow> upstream)
     \<Rightarrow> http_reply \<times> (jsstring \<times> jsstring) option" where
  "POST req service =
     (case req of
        None \<Rightarrow> (ServerError, None)
      | Some body \<Rightarrow>
          (case (text_req body, targetLang_req body) of
             (Some txt, Some tgt) \<Rightarrow>
               if txt = [] \<or> tgt = [] then (BadRequest, None)
               else
                 (case sourceLang_req body of
                    None \<Rightarrow> (ServerError, None)
                  | Some src \<Rightarrow>
                      (let source = (if src = str ''auto'' then str ''en''
                                     else hd (split 0x2D src));
                           target = hd (split 0x2D tgt);
                           langPair = source @ str ''|'' @ target
                       in (case service txt langPair of
                             Translated t \<Rightarrow> (Success t, Some (txt, langPair))
                           | _ \<Rightarrow> (ServerError, Some (txt, langPair)))))
           | _ \<Rightarrow> (BadRequest, None)))"

text \<open>
  The primary subtag in the words of the specification: the portion of a locale code before
  its first \<open>-\<close>.
\<close>

definition primarySubtag :: "jsstring \<Rightarrow> jsstring" where
  "primarySubtag s = takeWhile (\<lambda>c. c \<noteq> 0x2D) s"

section \<open>Core translation logic\<close>

text \<open>
  \<open>handleTranslate\<close> runs in two parts. The first runs to the \<open>await fetch\<close>: the
  guard, the choice of the thread, the user message, the cleared input and the busy flag.
  It reads the clock at most three times: twice in \<open>createNewChat\<close> (\<open>t_id\<close>,
  \<open>t_created\<close>) and once for the user message (\<open>t_msg\<close>). What the second part needs
  is kept in a \<open>Pending\<close>: the thread id and the target language of the closure, and the
  request sent.
\<close>

record Pending =
  activeChatId :: jsstring
  targetObj :: Language
  request :: translate_request

definition findLanguage :: "jsstring \<Rightarrow> nat \<Rightarrow> Language" where
  "findLanguage c fallback =
     (case find (\<lambda>l. code l = c) LANGUAGES of Some l \<Rightarrow> l | None \<Rightarrow> LANGUAGES ! fallback)"

definition userMsg :: "nat \<Rightarrow> page_state \<Rightarrow> Message" where
  "userMsg t_msg s =
     \<lparr>id_msg = toString t_msg, role = User, text_msg = inputText s,
      langLabel = label (findLanguage (sourceLang s) 0),
      langCode = code (findLanguage (sourceLang s) 0)\<rparr>"

definition addUserMessage :: "jsstring \<Rightarrow> jsstring \<Rightarrow> Message \<Rightarrow> ChatSession \<Rightarrow> ChatSession" where
  "addUserMessage i currentText m chat =
     (if id_chat chat = i
      then chat\<lparr>title := (if messages chat = [] then take 30 currentText @ str ''...''
                           else title chat),
                messages := messages chat @ [m]\<rparr>
      else chat)"

text \<open>
  \<open>let activeChatId = currentChatId; if (!activeChatId) activeChatId = createNewChat()\<close>:
  \<open>null\<close> and the empty string are falsy.
\<close>

definition chooseThread :: "nat \<Rightarrow> nat \<Rightarrow> page_state \<Rightarrow> jsstring \<times> page_state" where
  "chooseThread t_id t_created s =
     (case currentChatId s of
        Some i \<Rightarrow> if i \<noteq> [] then (i, s) else createNewChat t_id t_created s
      | None \<Rightarrow> createNewChat t_id t_created s)"

definition handleTranslate_begin ::
  "nat \<Rightarrow> nat \<Rightarrow> nat \<Rightarrow> page_state \<Rightarrow> Pending option \<times> page_state" where
  "handleTranslate_begin t_id t_created t_msg s =
     (if trim (inputText s) = [] then (None, s)
      else
        (case chooseThread t_id t_created s of
           (i, s1) \<Rightarrow>
             (Some \<lparr>activeChatId = i, targetObj = findLanguage (targetLang s) 1,
                    request = \<lparr>text_req = Some (inputText s),
                               targetLang_req = Some (targetLang s),
                               sourceLang_req = Some (sourceLang s)\<rparr>\<rparr>,
              (setChats (map (addUserMessage i (inputText s) (userMsg t_msg s))) s1)
                \<lparr>inputText := [], isTranslating := True\<rparr>)))"

text \<open>
  What the page sees of the answer: \<open>fetch\<close> rejects; \<open>response.json()\<close> rejects; the
  status is not 2xx; the status is 2xx and the body is \<open>null\<close>; the status is 2xx and
  \<open>data.translatedText\<close> is the given string (type \<open>Message\<close> has \<open>text: string\<close>).
  \<open>deliver\<close> is what it sees of an answer of the endpoint.
\<close>

datatype fetch_outcome = Rejected | Unparsable | NotOk | OkNull | OkText jsstring

definition deliver :: "http_reply \<Rightarrow> fetch_outcome" where
  "deliver r = (case r of Success t \<Rightarrow> OkText t | BadRequest \<Rightarrow> NotOk | ServerError \<Rightarrow> NotOk)"

datatype thrown = FetchFailed | BodySyntaxError | RequestFailed | NullBody

definition aiMsg :: "nat \<Rightarrow> Pending \<Rightarrow> jsstring \<Rightarrow> Message" where
  "aiMsg t p translatedText =
     \<lparr>id_msg = toString (t + 1), role = Assistant, text_msg = translatedText,
      langLabel = label (targetObj p), langCode = code (targetObj p)\<rparr>"

definition fallbackText :: jsstring where
  "fallbackText =
     [0x26A0, 0xFE0F] @ str '' Error: Could not translate. The free API might be busy.''"

definition errorMsg :: "nat \<Rightarrow> Message" where
  "errorMsg t =
     \<lparr>id_msg = toString (t + 1), role = Assistant, text_msg = fallbackText,
      langLabel = str ''System'', langCode = str ''en-US''\<rparr>"

definition tryBlock :: "nat \<Rightarrow> Pending \<Rightarrow> fetch_outcome \<Rightarrow> thrown + Message" where
  "tryBlock t p out =
     (case out of
        Rejected \<Rightarrow> Inl FetchFailed
      | Unparsable \<Rightarrow> Inl BodySyntaxError
      | NotOk \<Rightarrow> Inl RequestFailed
      | OkNull \<Rightarrow> Inl NullBody
      | OkText translatedText \<Rightarrow> Inr (aiMsg t p translatedText))"

definition addMessage :: "jsstring \<Rightarrow> Message \<Rightarrow> ChatSession \<Rightarrow> ChatSession" where
  "addMessage i m chat =
     (if id_chat chat = i then chat\<lparr>messages := messages chat @ [m]\<rparr> else chat)"

text \<open>
  The second part runs when the request settles, at clock reading \<open>t\<close>: the \<open>try\<close> block's
  remainder, the \<open>catch\<close> and the \<open>finally\<close>.
\<close>

definition handleTranslate_settle ::
  "nat \<Rightarrow> Pending \<Rightarrow> fetch_outcome \<Rightarrow> page_state \<Rightarrow> page_state" where
  "handleTranslate_settle t p out s =
     (case tryBlock t p out of
        Inr m \<Rightarrow> setChats (map (addMessage (activeChatId p) m)) s
      | Inl e \<Rightarrow>
          setChats (map (addMessage (activeChatId p) (errorMsg t)))
            (s\<lparr>console := console s @ [str ''Translation failed:'']\<rparr>))
     \<lparr>isTranslating := False\<rparr>"

section \<open>Events\<close>

text \<open>
  A session is the page and the requests in flight. An event is a click, a change of an
  input, a key press in the text area, or the settling of a request; each carries the clock
  readings its handler takes. A click on a thread or on its delete button names the row of
  the rendered list; \<open>FetchSettled k\<close> settles the \<open>k\<close>-th request in flight. After the
  handler the page is rendered and the save effect runs if \<open>chats\<close> changed.
\<close>

record session =
  page :: page_state
  inflight :: "Pending list"

datatype event =
    NewChatClicked nat nat
  | ChatClicked nat
  | DeleteClicked nat
  | InputChanged jsstring
  | SourceSelected jsstring
  | TargetSelected jsstring
  | EnterPressed bool nat nat nat
  | SendClicked nat nat nat
  | FetchSettled nat fetch_outcome nat

definition submit :: "nat \<Rightarrow> nat \<Rightarrow> nat \<Rightarrow> session \<Rightarrow> session" where
  "submit t_id t_created t_msg b =
     (case handleTranslate_begin t_id t_created t_msg (page b) of
        (None, s) \<Rightarrow> b\<lparr>page := s\<rparr>
      | (Some p, s) \<Rightarrow> \<lparr>page = s, inflight = inflight b @ [p]\<rparr>)"

definition sendDisabled :: "page_state \<Rightarrow> bool" where
  "sendDisabled s \<longleftrightarrow> trim (inputText s) = [] \<or> isTranslating s"

fun handle :: "event \<Rightarrow> session \<Rightarrow> session" where
  "handle (NewChatClicked t_id t_created) b = b\<lparr>page := snd (createNewChat t_id t_created (page b))\<rparr>"
| "handle (ChatClicked k) b =
     (if k < length (chats (page b))
      then b\<lparr>page := selectChat (id_chat (chats (page b) ! k)) (page b)\<rparr>
      else b)"
| "handle (DeleteClicked k) b =
     (if k < length (chats (page b))
      then b\<lparr>page := deleteChat (id_chat (chats (page b) ! k)) (page b)\<rparr>
      else b)"
| "handle (InputChanged v) b = b\<lparr>page := (page b)\<lparr>inputText := v\<rparr>\<rparr>"
| "handle (SourceSelected c) b = b\<lparr>page := (page b)\<lparr>sourceLang := c\<rparr>\<rparr>"
| "handle (TargetSelected c) b = b\<lparr>page := (page b)\<lparr>targetLang := c\<rparr>\<rparr>"
| "handle (EnterPressed shiftKey t_id t_created t_msg) b =
     (if shiftKey then b else submit t_id t_created t_msg b)"
| "handle (SendClicked t_id t_created t_msg) b =
     (if sendDisabled (page b) then b else submit t_id t_created t_msg b)"
| "handle (FetchSettled k out t) b =
     (if k < length (inflight b)
      then \<lparr>page = handleTranslate_settle t (inflight b ! k) out (page b),
            inflight = take k (inflight b) @ drop (Suc k) (inflight b)\<rparr>
      else b)"

definition step :: "event \<Rightarrow> session \<Rightarrow> session" where
  "step e b = (handle e b)\<lparr>page := commit (page (handle e b))\<rparr>"

definition run :: "event list \<Rightarrow> session \<Rightarrow> session" where
  "run es b = foldl (\<lambda>b e. step e b) b es"

definition fresh_session :: session where
  "fresh_session = \<lparr>page = initial_state None, inflight = []\<rparr>"

text \<open>
  The states the handlers keep the page in: no thread has the empty id, and the active id,
  when there is one, is the id of a thread of the list.
\<close>

definition wellFormed :: "page_state \<Rightarrow> bool" where
  "wellFormed s \<longleftrightarrow>
     list_all (\<lambda>c. id_chat c \<noteq> []) (chats s)
     \<and> (case currentChatId s of None \<Rightarrow> True | Some i \<Rightarrow> i \<in> set (map id_chat (chats s)))"

chapter \<open>Properties\<close>

section \<open>\<open>JSON.parse\<close> reads back what \<open>JSON.stringify\<close> writes\<close>

subsection \<open>Strings\<close>

lemma unat16_small: "k < 65536 \<Longrightarrow> unat (of_nat k :: 16 word) = k"
  by (simp add: unat_of_nat)

lemma hexValue_hexDigit: "d < 16 \<Longrightarrow> hexValue (hexDigit d) = Some d"
  by (simp add: hexValue_def hexDigit_def word_le_nat_alt unat16_small)

lemma hex_digits_recompose:
  fixes n :: nat
  shows "4096 * (n div 4096) + 256 * (n div 256 mod 16) + 16 * (n div 16 mod 16) + n mod 16 = n"
proof -
  define a where "a = n div 16"
  define b where "b = a div 16"
  define c where "c = b div 16"
  have n: "n = 16 * a + n mod 16" unfolding a_def by simp
  have a: "a = 16 * b + a mod 16" unfolding b_def by simp
  have b: "b = 16 * c + b mod 16" unfolding c_def by simp
  have b': "n div 256 = b"
    unfolding b_def a_def using div_mult2_eq [of n 16 16] by simp
  have c': "n div 4096 = c"
    unfolding c_def using div_mult2_eq [of n 256 16] b' by simp
  have "4096 * c + 256 * (b mod 16) + 16 * (a mod 16) + n mod 16 = n"
    using n a b by linarith
  then show ?thesis
    by (simp add: b' c' a_def [symmetric])
qed

lemma hex4_unicodeEscape:
  "hex4 (hexDigit (unat c div 4096)) (hexDigit (unat c div 256 mod 16))
        (hexDigit (unat c div 16 mod 16)) (hexDigit (unat c mod 16)) = Some (c :: 16 word)"
proof -
  have lt: "unat c < 65536" using unsigned_less [of c] by simp
  then have d3: "unat c div 4096 < 16" by simp
  show ?thesis
    by (simp add: hex4_def hexValue_hexDigit d3 hex_digits_recompose)
qed

lemma parseChars_quote: "parseChars (0x22 # r) = Some ([], r)"
  by simp

lemma parseChars_literal:
  "c \<noteq> 0x22 \<Longrightarrow> c \<noteq> 0x5C \<Longrightarrow> \<not> c < 0x20 \<Longrightarrow>
   parseChars (c # r) = consChar c (parseChars r)"
  by simp

lemma parseChars_escape:
  "e \<noteq> 0x75 \<Longrightarrow> unescape e = Some u \<Longrightarrow>
   parseChars (0x5C # e # r) = consChar u (parseChars r)"
  by simp

lemma parseChars_hex:
  "hex4 h1 h2 h3 h4 = Some u \<Longrightarrow>
   parseChars (0x5C # 0x75 # h1 # h2 # h3 # h4 # r) = consChar u (parseChars r)"
  by simp

lemma parseChars_unicodeEscape:
  "parseChars (unicodeEscape c @ r) = consChar c (parseChars r)"
  unfolding unicodeEscape_def
  using parseChars_hex [OF hex4_unicodeEscape [of c]] by simp

lemma unescape_simps:
  "unescape 0x22 = Some 0x22" "unescape 0x5C = Some 0x5C" "unescape 0x62 = Some 0x08"
  "unescape 0x66 = Some 0x0C" "unescape 0x6E = Some 0x0A" "unescape 0x72 = Some 0x0D"
  "unescape 0x74 = Some 0x09"
  by (simp_all add: unescape_def)

lemma parseChars_quoteUnit:
  "parseChars (quoteUnit c @ r) = consChar c (parseChars r)"
proof -
  have e1: "parseChars (0x5C # 0x62 # r) = consChar 0x08 (parseChars r)"
    by (rule parseChars_escape) (simp_all add: unescape_simps)
  have e2: "parseChars (0x5C # 0x74 # r) = consChar 0x09 (parseChars r)"
    by (rule parseChars_escape) (simp_all add: unescape_simps)
  have e3: "parseChars (0x5C # 0x6E # r) = consChar 0x0A (parseChars r)"
    by (rule parseChars_escape) (simp_all add: unescape_simps)
  have e4: "parseChars (0x5C # 0x66 # r) = consChar 0x0C (parseChars r)"
    by (rule parseChars_escape) (simp_all add: unescape_simps)
  have e5: "parseChars (0x5C # 0x72 # r) = consChar 0x0D (parseChars r)"
    by (rule parseChars_escape) (simp_all add: unescape_simps)
  have e6: "parseChars (0x5C # 0x22 # r) = consChar 0x22 (parseChars r)"
    by (rule parseChars_escape) (simp_all add: unescape_simps)
  have e7: "parseChars (0x5C # 0x5C # r) = consChar 0x5C (parseChars r)"
    by (rule parseChars_escape) (simp_all add: unescape_simps)
  show ?thesis
    unfolding quoteUnit_def
    by (simp add: e1 e2 e3 e4 e5 e6 e7 parseChars_unicodeEscape parseChars_literal
          del: parseChars.simps)
qed

lemma quoteUnit_surrogate:
  "isLeadingSurrogate c \<or> isTrailingSurrogate c \<Longrightarrow> quoteUnit c = [c]"
  by (auto simp add: quoteUnit_def isLeadingSurrogate_def isTrailingSurrogate_def word_le_nat_alt word_less_nat_alt)

lemma parseChars_surrogate:
  "isLeadingSurrogate c \<or> isTrailingSurrogate c \<Longrightarrow>
   parseChars (c # r) = consChar c (parseChars r)"
  using parseChars_quoteUnit [of c r] by (simp add: quoteUnit_surrogate del: parseChars.simps)


declare parseChars.simps [simp del]

lemma parseChars_quoteChars:
  "parseChars (quoteChars s @ 0x22 # rest) = Some (s, rest)"
proof (induction s rule: quoteChars.induct)
  case 1
  show ?case by (simp add: parseChars_quote)
next
  case (2 c)
  show ?case
    by (simp add: parseChars_unicodeEscape parseChars_quoteUnit parseChars_quote consChar_def)
next
  case (3 c d cs)
  show ?case
  proof (cases "isLeadingSurrogate c")
    case True
    note lead = this
    show ?thesis
    proof (cases "isTrailingSurrogate d")
      case True
      then show ?thesis using lead 3
        by (simp add: parseChars_surrogate consChar_def)
    next
      case False
      then show ?thesis using lead 3
        by (simp add: parseChars_unicodeEscape consChar_def)
    qed
  next
    case False
    then show ?thesis using 3
      by (simp add: parseChars_unicodeEscape parseChars_quoteUnit consChar_def)
  qed
qed

lemma parseChars_quoteJSONString:
  "\<exists>r. quoteJSONString s @ rest = 0x22 # r \<and> parseChars r = Some (s, rest)"
  by (simp add: quoteJSONString_def parseChars_quoteChars)

subsection \<open>Numbers\<close>

lemma delimited_simps [simp]:
  "delimited []" "delimited (0x2C # r)" "delimited (0x5D # r)" "delimited (0x7D # r)"
  by (simp_all add: delimited_def)

lemma takeWhile_digits:
  "list_all isDigit ds \<Longrightarrow> delimited rest \<Longrightarrow>
   takeWhile isDigit (ds @ rest) = ds \<and> dropWhile isDigit (ds @ rest) = rest"
  by (induction ds) (auto simp add: delimited_def isDigit_def split: list.splits)

lemma scan_tail:
  "delimited rest \<Longrightarrow> scanFraction rest = Some ([], rest) \<and> scanExponent rest = Some ([], rest)"
  by (auto simp add: delimited_def scanFraction_def scanExponent_def split: list.splits)

lemma scanNumber_integer:
  assumes "isIntegerLiteral lit" "delimited rest"
  shows "scanNumber (lit @ rest) = Some (lit, rest)"
proof (cases lit)
  case Nil
  then show ?thesis using assms by (simp add: isIntegerLiteral_def)
next
  case (Cons d ds)
  show ?thesis
  proof (cases "d = 0x30")
    case True
    then have "ds = []" using assms Cons by (simp add: isIntegerLiteral_def)
    then show ?thesis using True Cons assms(2)
      by (simp add: scanNumber_def scanInteger_def scan_tail)
  next
    case False
    then have d: "isDigit d" "list_all isDigit ds"
      using assms Cons by (simp_all add: isIntegerLiteral_def)
    then have "d \<noteq> 0x2D" by (auto simp add: isDigit_def)
    then show ?thesis using False d Cons assms(2)
      by (simp add: scanNumber_def scanInteger_def takeWhile_digits scan_tail)
  qed
qed

lemma integer_literal_head:
  "isIntegerLiteral lit \<Longrightarrow> \<exists>d ds. lit = d # ds \<and> isDigit d"
  by (cases lit) (auto simp add: isIntegerLiteral_def isDigit_def split: if_splits)

subsection \<open>Values\<close>

lemma skipWhiteSpace_cons:
  "\<not> isJSONWhiteSpace c \<Longrightarrow> skipWhiteSpace (c # r) = c # r"
  by (simp add: skipWhiteSpace_def)

lemma parseValue_quote:
  "parseValue (Suc n) (0x22 # r) =
     (case parseChars r of None \<Rightarrow> None | Some (s, r') \<Rightarrow> Some (JStr s, r'))"
  by (simp add: skipWhiteSpace_def isJSONWhiteSpace_def)

lemma parseValue_bracket:
  "parseValue (Suc n) (0x5B # r) =
     (case skipWhiteSpace r of
        [] \<Rightarrow> None
      | d # r' \<Rightarrow>
          if d = 0x5D then Some (JArr [], r')
          else (case parseElements n r of
                  None \<Rightarrow> None
                | Some (vs, r'') \<Rightarrow> Some (JArr vs, r'')))"
  by (simp add: skipWhiteSpace_def isJSONWhiteSpace_def)

lemma parseValue_brace:
  "parseValue (Suc n) (0x7B # r) =
     (case skipWhiteSpace r of
        [] \<Rightarrow> None
      | d # r' \<Rightarrow>
          if d = 0x7D then Some (JObj [], r')
          else (case parseMembers n r of
                  None \<Rightarrow> None
                | Some (kvs, r'') \<Rightarrow> Some (JObj (fromEntries kvs), r'')))"
  by (simp add: skipWhiteSpace_def isJSONWhiteSpace_def)

lemma parseValue_null: "parseValue (Suc n) (str ''null'' @ rest) = Some (JNull, rest)"
  by (simp add: str_def skipWhiteSpace_def isJSONWhiteSpace_def scanKeyword_def)

lemma parseValue_true: "parseValue (Suc n) (str ''true'' @ rest) = Some (JBool True, rest)"
  by (simp add: str_def skipWhiteSpace_def isJSONWhiteSpace_def scanKeyword_def)

lemma parseValue_false: "parseValue (Suc n) (str ''false'' @ rest) = Some (JBool False, rest)"
  by (simp add: str_def skipWhiteSpace_def isJSONWhiteSpace_def scanKeyword_def)

lemma isDigit_not_structural:
  "isDigit d \<Longrightarrow> \<not> isJSONWhiteSpace d \<and> d \<noteq> 0x22 \<and> d \<noteq> 0x5B \<and> d \<noteq> 0x7B \<and> d \<noteq> 0x6E
     \<and> d \<noteq> 0x74 \<and> d \<noteq> 0x66 \<and> d \<noteq> 0x5D \<and> d \<noteq> 0x7D"
  by (auto simp add: isDigit_def isJSONWhiteSpace_def)

lemma parseValue_number:
  assumes "isIntegerLiteral lit" "delimited rest"
  shows "parseValue (Suc n) (lit @ rest) = Some (JNum lit, rest)"
proof -
  obtain d ds where lit: "lit = d # ds" and d: "isDigit d"
    using integer_literal_head [OF assms(1)] by blast
  have "scanNumber (d # ds @ rest) = Some (lit, rest)"
    using scanNumber_integer [OF assms] lit by simp
  then show ?thesis
    using isDigit_not_structural [OF d] lit by (simp add: skipWhiteSpace_cons)
qed

lemma parseValue_string:
  "parseValue (Suc n) (quoteJSONString s @ rest) = Some (JStr s, rest)"
  by (simp add: quoteJSONString_def parseValue_quote parseChars_quoteChars
        del: parseValue.simps)

lemma parseElements_Suc:
  "parseValue n cs = Some (v, d # r') \<Longrightarrow> \<not> isJSONWhiteSpace d \<Longrightarrow>
   parseElements (Suc n) cs =
     (if d = 0x2C then
        (case parseElements n r' of None \<Rightarrow> None | Some (vs, r'') \<Rightarrow> Some (v # vs, r''))
      else if d = 0x5D then Some ([v], r')
      else None)"
  by (simp add: skipWhiteSpace_cons del: parseValue.simps)

lemma parseMembers_Suc:
  "parseChars r = Some (k, 0x3A # r2) \<Longrightarrow> parseValue n r2 = Some (v, d # r4) \<Longrightarrow>
   \<not> isJSONWhiteSpace d \<Longrightarrow>
   parseMembers (Suc n) (0x22 # r) =
     (if d = 0x2C then
        (case parseMembers n r4 of None \<Rightarrow> None | Some (kvs, r5) \<Rightarrow> Some ((k, v) # kvs, r5))
      else if d = 0x7D then Some ([(k, v)], r4)
      else None)"
  by (simp add: skipWhiteSpace_def isJSONWhiteSpace_def del: parseValue.simps)

lemma setProperty_fresh:
  "k \<notin> fst ` set obj \<Longrightarrow> setProperty k v obj = obj @ [(k, v)]"
  by (induction obj) auto

lemma foldl_setProperty_distinct:
  "distinct (map fst (obj @ kvs)) \<Longrightarrow>
   foldl (\<lambda>obj (k, v). setProperty k v obj) obj kvs = obj @ kvs"
proof (induction kvs arbitrary: obj)
  case Nil
  show ?case by simp
next
  case (Cons kv kvs)
  obtain k v where kv: "kv = (k, v)" by (cases kv)
  have fresh: "k \<notin> fst ` set obj" using Cons.prems kv by auto
  have "distinct (map fst ((obj @ [(k, v)]) @ kvs))" using Cons.prems kv by simp
  from Cons.IH [OF this] show ?case
    using kv by (simp add: setProperty_fresh [OF fresh])
qed

lemma fromEntries_distinct: "distinct (map fst kvs) \<Longrightarrow> fromEntries kvs = kvs"
  unfolding fromEntries_def using foldl_setProperty_distinct [of "[]" kvs] by simp

declare parseValue.simps [simp del] parseElements.simps [simp del] parseMembers.simps [simp del]

lemma serialize_head:
  assumes "plainValue v"
  shows "\<exists>c r. serialize v = c # r \<and> \<not> isJSONWhiteSpace c \<and> c \<noteq> 0x5D \<and> c \<noteq> 0x7D"
proof (cases v)
  case (JNum lit)
  have "isIntegerLiteral lit" using assms JNum by simp
  from integer_literal_head [OF this] obtain d ds where "lit = d # ds" "isDigit d"
    by blast
  then show ?thesis using JNum isDigit_not_structural [of d] by simp
qed (simp_all add: str_def quoteJSONString_def isJSONWhiteSpace_def)

lemma serializeElements_head:
  assumes "vs \<noteq> []" "plainElements vs"
  shows "\<exists>c r. serializeElements vs = c # r \<and> \<not> isJSONWhiteSpace c \<and> c \<noteq> 0x5D"
proof -
  obtain v ws where vs: "vs = v # ws" using assms(1) by (cases vs) auto
  then have "plainValue v" using assms(2) by simp
  then obtain c r where "serialize v = c # r" "\<not> isJSONWhiteSpace c" "c \<noteq> 0x5D"
    using serialize_head by blast
  then show ?thesis using vs by (cases ws) simp_all
qed

lemma serializeMembers_head:
  assumes "kvs \<noteq> []"
  shows "\<exists>r. serializeMembers kvs = 0x22 # r"
proof -
  obtain k v ws where "kvs = (k, v) # ws" using assms by (cases kvs) auto
  then show ?thesis by (cases ws) (simp_all add: quoteJSONString_def)
qed

lemma parse_serialize:
  "plainValue v \<Longrightarrow> fuelValue v \<le> n \<Longrightarrow> delimited rest \<Longrightarrow>
     parseValue n (serialize v @ rest) = Some (v, rest)"
  "vs \<noteq> [] \<Longrightarrow> plainElements vs \<Longrightarrow> fuelElements vs \<le> n \<Longrightarrow>
     parseElements n (serializeElements vs @ 0x5D # rest) = Some (vs, rest)"
  "kvs \<noteq> [] \<Longrightarrow> plainMembers kvs \<Longrightarrow> fuelMembers kvs \<le> n \<Longrightarrow>
     parseMembers n (serializeMembers kvs @ 0x7D # rest) = Some (kvs, rest)"
proof (induction v and vs and kvs arbitrary: n rest and n rest and n rest
       rule: serialize_serializeElements_serializeMembers.induct)
  case 1
  then obtain m where "n = Suc m" by (cases n) auto
  then show ?case by (simp add: parseValue_null)
next
  case (2 b)
  then obtain m where "n = Suc m" by (cases n) auto
  then show ?case by (simp add: parseValue_true parseValue_false)
next
  case (3 lit)
  then obtain m where "n = Suc m" by (cases n) auto
  then show ?case using 3 by (simp add: parseValue_number)
next
  case (4 s)
  then obtain m where "n = Suc m" by (cases n) auto
  then show ?case by (simp add: parseValue_string)
next
  case (5 vs)
  from 5(3) obtain m where n: "n = Suc m" and m: "fuelElements vs \<le> m" by (cases n) auto
  show ?case
  proof (cases "vs = []")
    case True
    then show ?thesis using n
      by (simp add: parseValue_bracket skipWhiteSpace_def isJSONWhiteSpace_def)
  next
    case False
    have pl: "plainElements vs" using 5(2) by simp
    obtain c r where hd: "serializeElements vs = c # r" "\<not> isJSONWhiteSpace c" "c \<noteq> 0x5D"
      using serializeElements_head [OF False pl] by blast
    have "parseElements m (serializeElements vs @ 0x5D # rest) = Some (vs, rest)"
      using 5(1) [OF False pl m] .
    then show ?thesis using n hd
      by (simp add: parseValue_bracket skipWhiteSpace_cons)
  qed
next
  case (6 kvs)
  from 6(3) obtain m where n: "n = Suc m" and m: "fuelMembers kvs \<le> m" by (cases n) auto
  show ?case
  proof (cases "kvs = []")
    case True
    then show ?thesis using n
      by (simp add: parseValue_brace skipWhiteSpace_def isJSONWhiteSpace_def)
  next
    case False
    have pl: "plainMembers kvs" and dist: "distinct (map fst kvs)" using 6(2) by simp_all
    obtain r where hd: "serializeMembers kvs = 0x22 # r"
      using serializeMembers_head [OF False] by blast
    have "parseMembers m (serializeMembers kvs @ 0x7D # rest) = Some (kvs, rest)"
      using 6(1) [OF False pl m] .
    then show ?thesis using n hd dist
      by (simp add: parseValue_brace skipWhiteSpace_def isJSONWhiteSpace_def
            fromEntries_distinct)
  qed
next
  case 7
  then show ?case by simp
next
  case (8 v)
  from 8(4) obtain m where n: "n = Suc m" and m: "fuelValue v \<le> m" by (cases n) auto
  have "parseValue m (serialize v @ 0x5D # rest) = Some (v, 0x5D # rest)"
    using 8(1) [of m "0x5D # rest"] 8(3) m by simp
  from parseElements_Suc [OF this] show ?case using n
    by (simp add: isJSONWhiteSpace_def)
next
  case (9 v w vs)
  from 9(5) obtain m where n: "n = Suc m" and m: "fuelValue v \<le> m"
    and m': "fuelElements (w # vs) \<le> m" by (cases n) auto
  have "parseValue m (serialize v @ 0x2C # serializeElements (w # vs) @ 0x5D # rest)
        = Some (v, 0x2C # serializeElements (w # vs) @ 0x5D # rest)"
    using 9(1) [of m "0x2C # serializeElements (w # vs) @ 0x5D # rest"] 9(4) m by simp
  from parseElements_Suc [OF this]
  have "parseElements (Suc m) (serialize v @ 0x2C # serializeElements (w # vs) @ 0x5D # rest)
        = (case parseElements m (serializeElements (w # vs) @ 0x5D # rest) of
             None \<Rightarrow> None | Some (us, r'') \<Rightarrow> Some (v # us, r''))"
    by (simp add: isJSONWhiteSpace_def)
  moreover have "parseElements m (serializeElements (w # vs) @ 0x5D # rest) = Some (w # vs, rest)"
    using 9(2) [of m rest] 9(4) m' by simp
  ultimately show ?case using n by simp
next
  case 10
  then show ?case by simp
next
  case (11 k v)
  from 11(4) obtain m where n: "n = Suc m" and m: "fuelValue v \<le> m" by (cases n) auto
  have key: "parseChars (quoteChars k @ 0x22 # 0x3A # serialize v @ 0x7D # rest)
             = Some (k, 0x3A # serialize v @ 0x7D # rest)"
    by (rule parseChars_quoteChars)
  have val: "parseValue m (serialize v @ 0x7D # rest) = Some (v, 0x7D # rest)"
    using 11(1) [of m "0x7D # rest"] 11(3) m by simp
  from parseMembers_Suc [OF key val] show ?case using n
    by (simp add: isJSONWhiteSpace_def quoteJSONString_def)
next
  case (12 k v kv kvs)
  from 12(5) obtain m where n: "n = Suc m" and m: "fuelValue v \<le> m"
    and m': "fuelMembers (kv # kvs) \<le> m" by (cases n) auto
  let ?tail = "0x2C # serializeMembers (kv # kvs) @ 0x7D # rest"
  have key: "parseChars (quoteChars k @ 0x22 # 0x3A # serialize v @ ?tail)
             = Some (k, 0x3A # serialize v @ ?tail)"
    by (rule parseChars_quoteChars)
  have val: "parseValue m (serialize v @ ?tail) = Some (v, ?tail)"
    using 12(1) [of m ?tail] 12(4) m by simp
  have rec: "parseMembers m (serializeMembers (kv # kvs) @ 0x7D # rest) = Some (kv # kvs, rest)"
    using 12(2) [of m rest] 12(4) m' by simp
  from parseMembers_Suc [OF key val] show ?case using n rec
    by (simp add: isJSONWhiteSpace_def quoteJSONString_def)
qed


lemma fuel_le_length:
  "plainValue v \<Longrightarrow> fuelValue v \<le> length (serialize v)"
  "plainElements vs \<Longrightarrow> fuelElements vs \<le> Suc (length (serializeElements vs))"
  "plainMembers kvs \<Longrightarrow> fuelMembers kvs \<le> Suc (length (serializeMembers kvs))"
proof (induction v and vs and kvs rule: serialize_serializeElements_serializeMembers.induct)
  case (3 lit)
  then show ?case by (cases lit) (simp_all add: isIntegerLiteral_def)
qed (simp_all add: str_def quoteJSONString_def)

lemma JSON_parse_serialize:
  assumes "plainValue v"
  shows "JSON_parse (serialize v) = Some v"
proof -
  have "fuelValue v \<le> Suc (length (serialize v))"
    using fuel_le_length(1) [OF assms] by simp
  from parse_serialize(1) [OF assms this, of "[]"]
  show ?thesis by (simp add: JSON_parse_def skipWhiteSpace_def)
qed

subsection \<open>Fuel\<close>

lemma consChar_Some:
  "consChar u x = Some (s, r) \<Longrightarrow> \<exists>s'. x = Some (s', r)"
  by (cases x) (auto simp add: consChar_def)

lemma parseChars_shorter: "parseChars cs = Some (s, r) \<Longrightarrow> length r < length cs"
proof (induction "length cs" arbitrary: cs s rule: less_induct)
  case less
  obtain c t where cs: "cs = c # t"
    using less.prems by (cases cs) (auto simp add: parseChars.simps)
  have step: "length r < length cs"
    if a: "consChar u (parseChars r') = Some (s, r)" and b: "length r' < length cs" for u r'
  proof -
    obtain s' where "parseChars r' = Some (s', r)" using consChar_Some [OF a] by blast
    from less.hyps [OF b this] b show ?thesis by simp
  qed
  show ?case
  proof (cases "c = 0x22")
    case True
    then show ?thesis using less.prems cs by (simp add: parseChars.simps)
  next
    case False
    note nq = this
    show ?thesis
    proof (cases "c = 0x5C")
      case False
      then have "consChar c (parseChars t) = Some (s, r)"
        using nq less.prems cs by (auto simp add: parseChars.simps split: if_splits)
      then show ?thesis using step cs by simp
    next
      case True
      then obtain e es where t: "t = e # es"
        using nq less.prems cs by (cases t) (auto simp add: parseChars.simps)
      show ?thesis
      proof (cases "e = 0x75")
        case True
        then obtain h1 h2 h3 h4 r' u where es: "es = h1 # h2 # h3 # h4 # r'"
          and "consChar u (parseChars r') = Some (s, r)"
          using nq \<open>c = 0x5C\<close> cs t less.prems
          by (auto simp add: parseChars.simps split: list.splits option.splits)
        then show ?thesis using step cs t by simp
      next
        case False
        then obtain u where "consChar u (parseChars es) = Some (s, r)"
          using nq \<open>c = 0x5C\<close> cs t less.prems
          by (auto simp add: parseChars.simps split: option.splits)
        then show ?thesis using step cs t by simp
      qed
    qed
  qed
qed

lemma scanFraction_le: "scanFraction cs = Some (fp, r) \<Longrightarrow> length r \<le> length cs"
  by (auto simp add: scanFraction_def split: list.splits if_splits
        intro: le_SucI length_dropWhile_le)

lemma scanExponent_le: "scanExponent cs = Some (ep, r) \<Longrightarrow> length r \<le> length cs"
proof -
  assume a: "scanExponent cs = Some (ep, r)"
  show ?thesis
  proof (cases cs)
    case Nil
    then show ?thesis using a by (simp add: scanExponent_def)
  next
    case (Cons c t)
    have "length (snd (scanSign t)) \<le> length t"
      by (cases t) (auto simp add: scanSign_def)
    moreover have "length (dropWhile isDigit (snd (scanSign t))) \<le> length (snd (scanSign t))"
      by (rule length_dropWhile_le)
    ultimately show ?thesis using a Cons
      by (auto simp add: scanExponent_def split: if_splits prod.splits)
  qed
qed

lemma scanInteger_shorter: "scanInteger cs = Some (ip, r) \<Longrightarrow> length r < length cs"
  by (auto simp add: scanInteger_def split: list.splits if_splits
        intro: le_imp_less_Suc length_dropWhile_le)

lemma scanNumber_shorter:
  assumes "scanNumber cs = Some (lit, r)"
  shows "length r < length cs"
proof -
  obtain neg r0 where s: "(case cs of [] \<Rightarrow> ([], cs) | c # t \<Rightarrow> if c = 0x2D then ([c], t) else ([], cs))
                          = (neg, r0)"
    by (cases "(case cs of [] \<Rightarrow> ([], cs) | c # t \<Rightarrow> if c = 0x2D then ([c], t) else ([], cs))")
  have r0: "length r0 \<le> length cs" using s by (auto split: list.splits if_splits)
  from assms s obtain ip r1 fp r2 ep where
    "scanInteger r0 = Some (ip, r1)" "scanFraction r1 = Some (fp, r2)"
    "scanExponent r2 = Some (ep, r)"
    by (auto simp add: scanNumber_def split: option.splits)
  then show ?thesis
    using scanInteger_shorter scanFraction_le scanExponent_le r0 by fastforce
qed

lemma scanKeyword_shorter:
  "scanKeyword kw v cs = Some (w, r) \<Longrightarrow> kw \<noteq> [] \<Longrightarrow> length r < length cs"
  by (cases cs) (auto simp add: scanKeyword_def split: if_splits)

lemma skipWhiteSpace_le: "length (skipWhiteSpace cs) \<le> length cs"
  by (simp add: skipWhiteSpace_def length_dropWhile_le)

lemma parseValue_cases:
  assumes "parseValue (Suc m) cs = Some (v, r)"
  shows "(length r < length cs \<and> (\<forall>n. parseValue (Suc n) cs = Some (v, r)))
       \<or> (\<exists>r0 vs. length r0 < length cs \<and> parseElements m r0 = Some (vs, r)
            \<and> (\<forall>n. parseElements n r0 = Some (vs, r) \<longrightarrow> parseValue (Suc n) cs = Some (v, r)))
       \<or> (\<exists>r0 kvs. length r0 < length cs \<and> parseMembers m r0 = Some (kvs, r)
            \<and> (\<forall>n. parseMembers n r0 = Some (kvs, r) \<longrightarrow> parseValue (Suc n) cs = Some (v, r)))"
proof -
  obtain c r0 where sk: "skipWhiteSpace cs = c # r0"
    using assms by (cases "skipWhiteSpace cs") (auto simp add: parseValue.simps)
  have len: "length r0 < length cs" using skipWhiteSpace_le [of cs] sk by simp
  consider (str) "c = 0x22" | (arr) "c = 0x5B" | (obj) "c = 0x7B"
    | (other) "c \<noteq> 0x22" "c \<noteq> 0x5B" "c \<noteq> 0x7B"
    by blast
  then show ?thesis
  proof cases
    case str
    then obtain s where "parseChars r0 = Some (s, r)" "v = JStr s"
      using assms sk by (auto simp add: parseValue.simps split: option.splits)
    then show ?thesis using str sk len parseChars_shorter [of r0 s r]
      by (simp add: parseValue.simps)
  next
    case arr
    obtain d r' where sk': "skipWhiteSpace r0 = d # r'"
      using assms sk arr by (cases "skipWhiteSpace r0") (auto simp add: parseValue.simps)
    show ?thesis
    proof (cases "d = 0x5D")
      case True
      then have "r = r'" "v = JArr []" using assms sk arr sk' by (simp_all add: parseValue.simps)
      moreover have "length r' < length cs" using skipWhiteSpace_le [of r0] sk' len by simp
      ultimately show ?thesis using True sk arr sk' by (simp add: parseValue.simps)
    next
      case False
      then obtain vs where "parseElements m r0 = Some (vs, r)" "v = JArr vs"
        using assms sk arr sk' by (auto simp add: parseValue.simps split: option.splits)
      then show ?thesis using False sk arr sk' len
        by (intro disjI2 disjI1) (auto simp add: parseValue.simps)
    qed
  next
    case obj
    obtain d r' where sk': "skipWhiteSpace r0 = d # r'"
      using assms sk obj by (cases "skipWhiteSpace r0") (auto simp add: parseValue.simps)
    show ?thesis
    proof (cases "d = 0x7D")
      case True
      then have "r = r'" "v = JObj []" using assms sk obj sk' by (simp_all add: parseValue.simps)
      moreover have "length r' < length cs" using skipWhiteSpace_le [of r0] sk' len by simp
      ultimately show ?thesis using True sk obj sk' by (simp add: parseValue.simps)
    next
      case False
      then obtain kvs where "parseMembers m r0 = Some (kvs, r)" "v = JObj (fromEntries kvs)"
        using assms sk obj sk' by (auto simp add: parseValue.simps split: option.splits)
      then show ?thesis using False sk obj sk' len
        by (intro disjI2) (auto simp add: parseValue.simps)
    qed
  next
    case other
    have indep: "parseValue (Suc n) cs = parseValue (Suc m) cs" for n
      using sk other by (simp add: parseValue.simps)
    have "length r < length (c # r0)"
      using assms sk other scanNumber_shorter [of "c # r0" _ r]
        scanKeyword_shorter [of _ _ "c # r0" v r]
      by (auto simp add: parseValue.simps str_def split: if_splits option.splits)
    then have "length r < length cs" using skipWhiteSpace_le [of cs] sk by simp
    then show ?thesis using indep assms by simp
  qed
qed

lemma parseElements_cases:
  assumes "parseElements (Suc m) cs = Some (vs, r)"
  shows "\<exists>v r1 d r2. parseValue m cs = Some (v, r1) \<and> skipWhiteSpace r1 = d # r2
           \<and> (d = 0x5D \<and> vs = [v] \<and> r = r2
              \<or> d = 0x2C \<and> (\<exists>vs'. parseElements m r2 = Some (vs', r) \<and> vs = v # vs'))"
  using assms
  by (auto simp add: parseElements.simps split: option.splits list.splits if_splits)

lemma parseMembers_cases:
  assumes "parseMembers (Suc m) cs = Some (kvs, r)"
  shows "\<exists>q0 k q1 q2 v r3 d r4.
           skipWhiteSpace cs = 0x22 # q0 \<and> parseChars q0 = Some (k, q1)
           \<and> skipWhiteSpace q1 = 0x3A # q2 \<and> parseValue m q2 = Some (v, r3)
           \<and> skipWhiteSpace r3 = d # r4
           \<and> (d = 0x7D \<and> kvs = [(k, v)] \<and> r = r4
              \<or> d = 0x2C \<and> (\<exists>kvs'. parseMembers m r4 = Some (kvs', r) \<and> kvs = (k, v) # kvs'))"
  using assms
  by (auto simp add: parseMembers.simps split: option.splits list.splits if_splits)

lemma skipWhiteSpace_cons_less:
  "skipWhiteSpace cs = c # r \<Longrightarrow> length r < length cs"
  using skipWhiteSpace_le [of cs] by simp

lemma fuel_enough:
  "(parseValue m cs = Some (v, r) \<longrightarrow>
      length r < length cs \<and> (\<forall>n. length cs - length r \<le> n \<longrightarrow> parseValue n cs = Some (v, r)))
   \<and> (parseElements m cs = Some (vs, r) \<longrightarrow>
      length r < length cs \<and> (\<forall>n. length cs - length r \<le> n \<longrightarrow> parseElements n cs = Some (vs, r)))
   \<and> (parseMembers m cs = Some (kvs, r) \<longrightarrow>
      length r < length cs \<and> (\<forall>n. length cs - length r \<le> n \<longrightarrow> parseMembers n cs = Some (kvs, r)))"
proof (induction m arbitrary: cs v vs kvs r)
  case 0
  show ?case by (simp add: parseValue.simps parseElements.simps parseMembers.simps)
next
  case (Suc m)
  note IHv = Suc.IH [THEN conjunct1, rule_format]
  note IHe = Suc.IH [THEN conjunct2, THEN conjunct1, rule_format]
  note IHm = Suc.IH [THEN conjunct2, THEN conjunct2, rule_format]
  have val: "length r < length cs
             \<and> (\<forall>n. length cs - length r \<le> n \<longrightarrow> parseValue n cs = Some (v, r))"
    if a: "parseValue (Suc m) cs = Some (v, r)"
  proof -
    from parseValue_cases [OF a]
    consider (scalar) "length r < length cs" "\<forall>n. parseValue (Suc n) cs = Some (v, r)"
      | (arr) r0 us where "length r0 < length cs" "parseElements m r0 = Some (us, r)"
          "\<forall>n. parseElements n r0 = Some (us, r) \<longrightarrow> parseValue (Suc n) cs = Some (v, r)"
      | (obj) r0 ps where "length r0 < length cs" "parseMembers m r0 = Some (ps, r)"
          "\<forall>n. parseMembers n r0 = Some (ps, r) \<longrightarrow> parseValue (Suc n) cs = Some (v, r)"
      by blast
    then show ?thesis
    proof cases
      case scalar
      have "parseValue n cs = Some (v, r)" if "length cs - length r \<le> n" for n
        using that scalar by (cases n) auto
      then show ?thesis using scalar(1) by blast
    next
      case arr
      from IHe [OF arr(2)] have l: "length r < length r0"
        and e: "\<And>n. length r0 - length r \<le> n \<Longrightarrow> parseElements n r0 = Some (us, r)"
        by auto
      have "parseValue n cs = Some (v, r)" if "length cs - length r \<le> n" for n
      proof (cases n)
        case 0
        then show ?thesis using that l arr(1) by simp
      next
        case (Suc n')
        then have "length r0 - length r \<le> n'" using that arr(1) by simp
        then show ?thesis using e arr(3) Suc by simp
      qed
      then show ?thesis using l arr(1) by auto
    next
      case obj
      from IHm [OF obj(2)] have l: "length r < length r0"
        and e: "\<And>n. length r0 - length r \<le> n \<Longrightarrow> parseMembers n r0 = Some (ps, r)"
        by auto
      have "parseValue n cs = Some (v, r)" if "length cs - length r \<le> n" for n
      proof (cases n)
        case 0
        then show ?thesis using that l obj(1) by simp
      next
        case (Suc n')
        then have "length r0 - length r \<le> n'" using that obj(1) by simp
        then show ?thesis using e obj(3) Suc by simp
      qed
      then show ?thesis using l obj(1) by auto
    qed
  qed
  have elems: "length r < length cs
             \<and> (\<forall>n. length cs - length r \<le> n \<longrightarrow> parseElements n cs = Some (vs, r))"
    if a: "parseElements (Suc m) cs = Some (vs, r)"
  proof -
    from parseElements_cases [OF a] obtain w r1 d r2 where
      w: "parseValue m cs = Some (w, r1)" and sk: "skipWhiteSpace r1 = d # r2"
      and alt: "d = 0x5D \<and> vs = [w] \<and> r = r2
                \<or> d = 0x2C \<and> (\<exists>vs'. parseElements m r2 = Some (vs', r) \<and> vs = w # vs')"
      by blast
    from IHv [OF w] have l1: "length r1 < length cs"
      and e1: "\<And>n. length cs - length r1 \<le> n \<Longrightarrow> parseValue n cs = Some (w, r1)"
      by auto
    have l2: "length r2 < length r1" using sk by (rule skipWhiteSpace_cons_less)
    from alt show ?thesis
    proof
      assume c: "d = 0x5D \<and> vs = [w] \<and> r = r2"
      have "parseElements n cs = Some (vs, r)" if "length cs - length r \<le> n" for n
      proof (cases n)
        case 0
        then show ?thesis using that l1 l2 c by simp
      next
        case (Suc n')
        then have "length cs - length r1 \<le> n'" using that l1 l2 c by simp
        from e1 [OF this] show ?thesis using Suc sk c by (simp add: parseElements.simps)
      qed
      then show ?thesis using l1 l2 c by auto
    next
      assume c: "d = 0x2C \<and> (\<exists>vs'. parseElements m r2 = Some (vs', r) \<and> vs = w # vs')"
      then obtain vs' where r: "parseElements m r2 = Some (vs', r)" and vs: "vs = w # vs'"
        by blast
      from IHe [OF r] have l3: "length r < length r2"
        and e3: "\<And>n. length r2 - length r \<le> n \<Longrightarrow> parseElements n r2 = Some (vs', r)"
        by auto
      have "parseElements n cs = Some (vs, r)" if "length cs - length r \<le> n" for n
      proof (cases n)
        case 0
        then show ?thesis using that l1 l2 l3 by simp
      next
        case (Suc n')
        then have "length cs - length r1 \<le> n'" "length r2 - length r \<le> n'"
          using that l1 l2 l3 by simp_all
        from e1 [OF this(1)] e3 [OF this(2)] show ?thesis
          using Suc sk c vs by (simp add: parseElements.simps)
      qed
      then show ?thesis using l1 l2 l3 by auto
    qed
  qed
  have membs: "length r < length cs
             \<and> (\<forall>n. length cs - length r \<le> n \<longrightarrow> parseMembers n cs = Some (kvs, r))"
    if a: "parseMembers (Suc m) cs = Some (kvs, r)"
  proof -
    from parseMembers_cases [OF a] obtain q0 k q1 q2 w r3 d r4 where
      s0: "skipWhiteSpace cs = 0x22 # q0" and k: "parseChars q0 = Some (k, q1)"
      and s1: "skipWhiteSpace q1 = 0x3A # q2" and w: "parseValue m q2 = Some (w, r3)"
      and s3: "skipWhiteSpace r3 = d # r4"
      and alt: "d = 0x7D \<and> kvs = [(k, w)] \<and> r = r4
                \<or> d = 0x2C \<and> (\<exists>kvs'. parseMembers m r4 = Some (kvs', r) \<and> kvs = (k, w) # kvs')"
      by blast
    have l0: "length q0 < length cs" using s0 by (rule skipWhiteSpace_cons_less)
    have lk: "length q1 < length q0" using k by (rule parseChars_shorter)
    have lq: "length q2 < length q1" using s1 by (rule skipWhiteSpace_cons_less)
    from IHv [OF w] have l3: "length r3 < length q2"
      and e3: "\<And>n. length q2 - length r3 \<le> n \<Longrightarrow> parseValue n q2 = Some (w, r3)"
      by auto
    have l4: "length r4 < length r3" using s3 by (rule skipWhiteSpace_cons_less)
    from alt show ?thesis
    proof
      assume c: "d = 0x7D \<and> kvs = [(k, w)] \<and> r = r4"
      have "parseMembers n cs = Some (kvs, r)" if "length cs - length r \<le> n" for n
      proof (cases n)
        case 0
        then show ?thesis using that l0 lk lq l3 l4 c by simp
      next
        case (Suc n')
        then have "length q2 - length r3 \<le> n'" using that l0 lk lq l3 l4 c by simp
        from e3 [OF this] show ?thesis using Suc s0 k s1 s3 c
          by (simp add: parseMembers.simps)
      qed
      then show ?thesis using l0 lk lq l3 l4 c by auto
    next
      assume c: "d = 0x2C \<and> (\<exists>kvs'. parseMembers m r4 = Some (kvs', r) \<and> kvs = (k, w) # kvs')"
      then obtain kvs' where r: "parseMembers m r4 = Some (kvs', r)" and kvs: "kvs = (k, w) # kvs'"
        by blast
      from IHm [OF r] have l5: "length r < length r4"
        and e5: "\<And>n. length r4 - length r \<le> n \<Longrightarrow> parseMembers n r4 = Some (kvs', r)"
        by auto
      have "parseMembers n cs = Some (kvs, r)" if "length cs - length r \<le> n" for n
      proof (cases n)
        case 0
        then show ?thesis using that l0 lk lq l3 l4 l5 by simp
      next
        case (Suc n')
        then have "length q2 - length r3 \<le> n'" "length r4 - length r \<le> n'"
          using that l0 lk lq l3 l4 l5 by simp_all
        from e3 [OF this(1)] e5 [OF this(2)] show ?thesis
          using Suc s0 k s1 s3 c kvs by (simp add: parseMembers.simps)
      qed
      then show ?thesis using l0 lk lq l3 l4 l5 by auto
    qed
  qed
  show ?case using val elems membs by blast
qed

text \<open>
  The fuel \<open>JSON_parse\<close> supplies is enough: a text that the reader accepts with any
  amount of fuel is accepted by \<open>JSON_parse\<close>, with the same value.
\<close>

lemma JSON_parse_fuel:
  assumes "parseValue m cs = Some (v, r)" and "skipWhiteSpace r = []"
  shows "JSON_parse cs = Some v"
proof -
  from fuel_enough [of m cs v r, THEN conjunct1] assms(1)
  have "parseValue (Suc (length cs)) cs = Some (v, r)" by simp
  then show ?thesis using assms(2) by (simp add: JSON_parse_def)
qed

section \<open>Thread store\<close>

lemma createFresh_simps [simp]:
  "fst (createFresh t_id t_created s) = toString t_id"
  "chats (snd (createFresh t_id t_created s)) = newChat t_id t_created # chats s"
  "currentChatId (snd (createFresh t_id t_created s)) = Some (toString t_id)"
  by (simp_all add: createFresh_def newChat_def setChats_def)

lemma createNewChat_reuse:
  assumes "chats s = c # cs" "messages c = []"
  shows "createNewChat t_id t_created s
         = (id_chat c, s\<lparr>currentChatId := Some (id_chat c), isSidebarOpen := False\<rparr>)"
  using assms by (simp add: createNewChat_def)

lemma createNewChat_repeat:
  assumes "chats s = c # cs" "messages c = []"
  shows "chats (foldl (\<lambda>s (t_id, t_created). snd (createNewChat t_id t_created s)) s ts) = chats s"
  using assms
proof (induction ts arbitrary: s)
  case Nil
  show ?case by simp
next
  case (Cons t ts)
  obtain t_id t_created where t: "t = (t_id, t_created)" by (cases t)
  let ?s' = "s\<lparr>currentChatId := Some (id_chat c), isSidebarOpen := False\<rparr>"
  have "chats ?s' = c # cs" using Cons.prems by simp
  from Cons.IH [OF this Cons.prems(2)] show ?case
    using t createNewChat_reuse [OF Cons.prems] by simp
qed

text \<open>
  Claim C1. When the newest thread (the head of the newest-first list) has no messages,
  \<open>createNewChat\<close> returns that thread's id, makes it the active thread and leaves the
  thread list as it is: no thread is added and the count does not grow, however many times
  it is called in a row.
\<close>

theorem createNewChat_reuses_empty_thread:
  assumes "chats s = c # cs" and "messages c = []"
  shows "fst (createNewChat t_id t_created s) = id_chat c
       \<and> currentChatId (snd (createNewChat t_id t_created s)) = Some (id_chat c)
       \<and> chats (snd (createNewChat t_id t_created s)) = chats s
       \<and> length (chats (snd (createNewChat t_id t_created s))) = length (chats s)
       \<and> chats (foldl (\<lambda>s (t_id, t_created). snd (createNewChat t_id t_created s)) s ts)
           = chats s"
  using createNewChat_reuse [OF assms] createNewChat_repeat [OF assms] by simp

theorem createNewChat_reuses_empty_thread_witness:
  "chats ((initial_state None)\<lparr>chats := [newChat 5 5]\<rparr>) = newChat 5 5 # []
   \<and> messages (newChat 5 5) = []
   \<and> fst (createNewChat 8 9 ((initial_state None)\<lparr>chats := [newChat 5 5]\<rparr>)) = toString 5
   \<and> currentChatId (snd (createNewChat 8 9 ((initial_state None)\<lparr>chats := [newChat 5 5]\<rparr>)))
       = Some (toString 5)
   \<and> chats (snd (createNewChat 8 9 ((initial_state None)\<lparr>chats := [newChat 5 5]\<rparr>)))
       = [newChat 5 5]
   \<and> length (chats (foldl (\<lambda>s (t_id, t_created). snd (createNewChat t_id t_created s))
         ((initial_state None)\<lparr>chats := [newChat 5 5]\<rparr>) [(8, 9), (10, 11)])) = 1"
  using createNewChat_reuses_empty_thread
          [of "(initial_state None)\<lparr>chats := [newChat 5 5]\<rparr>" "newChat 5 5" "[]" 8 9
              "[(8, 9), (10, 11)]"]
  by (simp add: newChat_def initial_state_def)

lemma filter_distinct_length:
  "distinct (map f xs) \<Longrightarrow> x \<in> set xs \<Longrightarrow>
   Suc (length (filter (\<lambda>c. f c \<noteq> f x) xs)) = length xs"
proof (induction xs)
  case Nil
  then show ?case by simp
next
  case (Cons y ys)
  show ?case
  proof (cases "f y = f x")
    case True
    have "f y \<notin> f ` set ys" using Cons.prems(1) by simp
    then have "\<forall>c \<in> set ys. f c \<noteq> f x" using True by (metis imageI)
    then have "filter (\<lambda>c. f c \<noteq> f x) ys = ys" by (simp add: filter_id_conv)
    then show ?thesis using True by simp
  next
    case False
    then have "x \<in> set ys" using Cons.prems(2) by auto
    then show ?thesis using Cons False by simp
  qed
qed

text \<open>
  Claim C2. For a thread id \<open>i\<close> present in the list, \<open>deleteChat i\<close> keeps exactly the
  threads whose id is not \<open>i\<close>, in their order (one thread fewer when ids are unique).
  If \<open>i\<close> was the active thread, the head of the remaining newest-first list becomes
  active, or no thread when none remains; otherwise the selection is unchanged.
\<close>

theorem deleteChat_removes_thread:
  assumes "i \<in> id_chat ` set (chats s)"
  shows "chats (deleteChat i s) = filter (\<lambda>c. id_chat c \<noteq> i) (chats s)
       \<and> i \<notin> id_chat ` set (chats (deleteChat i s))
       \<and> (\<forall>c. id_chat c \<noteq> i \<longrightarrow> (c \<in> set (chats (deleteChat i s)) \<longleftrightarrow> c \<in> set (chats s)))
       \<and> (distinct (map id_chat (chats s))
            \<longrightarrow> Suc (length (chats (deleteChat i s))) = length (chats s))
       \<and> (currentChatId s = Some i
            \<longrightarrow> currentChatId (deleteChat i s)
                = (case chats (deleteChat i s) of c # _ \<Rightarrow> Some (id_chat c) | [] \<Rightarrow> None))
       \<and> (currentChatId s \<noteq> Some i
            \<longrightarrow> currentChatId (deleteChat i s) = currentChatId s)"
proof -
  have eq: "chats (deleteChat i s) = filter (\<lambda>c. id_chat c \<noteq> i) (chats s)"
    by (simp add: deleteChat_def Let_def setChats_def)
  obtain x where x: "x \<in> set (chats s)" "id_chat x = i" using assms by auto
  have len: "distinct (map id_chat (chats s))
             \<Longrightarrow> Suc (length (chats (deleteChat i s))) = length (chats s)"
    using filter_distinct_length [of id_chat "chats s" x] x eq by simp
  have cur: "currentChatId s = Some i \<Longrightarrow> currentChatId (deleteChat i s)
                = (case chats (deleteChat i s) of c # _ \<Rightarrow> Some (id_chat c) | [] \<Rightarrow> None)"
    by (simp add: deleteChat_def Let_def setChats_def)
  have keep: "currentChatId s \<noteq> Some i \<Longrightarrow> currentChatId (deleteChat i s) = currentChatId s"
    by (simp add: deleteChat_def Let_def setChats_def)
  show ?thesis using eq len cur keep by auto
qed

theorem deleteChat_removes_thread_witness:
  "toString 5 \<in> id_chat ` set (chats ((initial_state None)
       \<lparr>chats := [newChat 7 7, newChat 5 5], currentChatId := Some (toString 5)\<rparr>))
   \<and> chats (deleteChat (toString 5) ((initial_state None)
       \<lparr>chats := [newChat 7 7, newChat 5 5], currentChatId := Some (toString 5)\<rparr>))
       = [newChat 7 7]
   \<and> currentChatId (deleteChat (toString 5) ((initial_state None)
       \<lparr>chats := [newChat 7 7, newChat 5 5], currentChatId := Some (toString 5)\<rparr>))
       = Some (toString 7)"
  using deleteChat_removes_thread
          [of "toString 5" "(initial_state None)
                \<lparr>chats := [newChat 7 7, newChat 5 5], currentChatId := Some (toString 5)\<rparr>"]
  by (simp add: newChat_def initial_state_def toString.simps digit_def)

section \<open>Language pairs of the translate endpoint\<close>

lemma split_not_Nil: "split sep s \<noteq> []"
  by (induction s) (auto split: list.splits)

lemma hd_split: "hd (split sep s) = takeWhile (\<lambda>c. c \<noteq> sep) s"
proof (induction s)
  case Nil
  show ?case by simp
next
  case (Cons c cs)
  then show ?case using split_not_Nil [of sep cs]
    by (cases "split sep cs") auto
qed

lemma POST_sends:
  assumes "text_req body = Some txt" "txt \<noteq> []" "targetLang_req body = Some tgt" "tgt \<noteq> []"
      and "sourceLang_req body = Some src"
  shows "snd (POST (Some body) service)
         = Some (txt, (if src = str ''auto'' then str ''en'' else hd (split 0x2D src))
                      @ str ''|'' @ hd (split 0x2D tgt))"
  using assms by (simp add: POST_def Let_def split: upstream.splits)

lemma POST_failure:
  assumes "\<forall>q lp t. service q lp \<noteq> Translated t"
  shows "deliver (fst (POST req service)) = NotOk"
proof -
  have "\<And>q lp. (case service q lp of Translated t \<Rightarrow> (Success t, Some (q, lp))
                  | _ \<Rightarrow> (ServerError, Some (q, lp))) = (ServerError, Some (q, lp))"
    using assms by (simp split: upstream.splits)
  then show ?thesis
    by (simp add: POST_def deliver_def Let_def split: option.splits)
qed

text \<open>
  Claim C5. When the endpoint calls the external service, the pair it sends is the primary
  subtag of the source code (the portion before the first \<open>-\<close>), a \<open>|\<close>, and the primary
  subtag of the target code; \<open>en-US\<close> and \<open>en-GB\<close> both give \<open>en\<close>. A source code equal
  to \<open>auto\<close> is replaced by \<open>en\<close>, so \<open>auto\<close> itself is not sent.
\<close>

theorem POST_langpair_primary_subtags:
  assumes "text_req body = Some txt" and "txt \<noteq> []"
      and "targetLang_req body = Some tgt" and "tgt \<noteq> []"
      and "sourceLang_req body = Some src"
  shows "snd (POST (Some body) service)
           = Some (txt, (if src = str ''auto'' then str ''en'' else primarySubtag src)
                        @ str ''|'' @ primarySubtag tgt)
       \<and> hd (split 0x2D (str ''en-US'')) = str ''en''
       \<and> hd (split 0x2D (str ''en-GB'')) = str ''en''
       \<and> primarySubtag (str ''en-US'') = str ''en''
       \<and> primarySubtag (str ''en-GB'') = str ''en''"
  using POST_sends [OF assms]
  by (simp add: hd_split primarySubtag_def str_def)

theorem POST_langpair_primary_subtags_witness:
  "snd (POST (Some \<lparr>text_req = Some (str ''Hello''), targetLang_req = Some (str ''fr-FR''),
                     sourceLang_req = Some (str ''en-GB'')\<rparr>) (\<lambda>q lp. Translated (str ''Bonjour'')))
     = Some (str ''Hello'', str ''en|fr'')
   \<and> snd (POST (Some \<lparr>text_req = Some (str ''Hello''), targetLang_req = Some (str ''fr-FR''),
                     sourceLang_req = Some (str ''auto'')\<rparr>) (\<lambda>q lp. Translated (str ''Bonjour'')))
     = Some (str ''Hello'', str ''en|fr'')"
  using POST_langpair_primary_subtags
          [of "\<lparr>text_req = Some (str ''Hello''), targetLang_req = Some (str ''fr-FR''),
                sourceLang_req = Some (str ''en-GB'')\<rparr>" "str ''Hello''" "str ''fr-FR''"
              "str ''en-GB''" "\<lambda>q lp. Translated (str ''Bonjour'')"]
        POST_langpair_primary_subtags
          [of "\<lparr>text_req = Some (str ''Hello''), targetLang_req = Some (str ''fr-FR''),
                sourceLang_req = Some (str ''auto'')\<rparr>" "str ''Hello''" "str ''fr-FR''"
              "str ''auto''" "\<lambda>q lp. Translated (str ''Bonjour'')"]
  by (simp add: primarySubtag_def str_def)

section \<open>Submission\<close>

lemma find_map_preserved:
  "(\<And>c. P (f c) = P c) \<Longrightarrow> find P (map f cs) = map_option f (find P cs)"
  by (induction cs) simp_all

lemma find_never: "(\<And>c. \<not> P c) \<Longrightarrow> find P cs = None"
  by (induction cs) simp_all

lemma find_present: "x \<in> set (map f cs) \<Longrightarrow> \<exists>c. find (\<lambda>c. f c = x) cs = Some c"
  by (induction cs) auto

lemma getCurrentChat_Some:
  "currentChatId s = Some i \<Longrightarrow> getCurrentChat s = find (\<lambda>c. id_chat c = i) (chats s)"
  by (simp add: getCurrentChat_def)

lemma activeMessages_None: "currentChatId s = None \<Longrightarrow> activeMessages s = []"
  by (simp add: activeMessages_def getCurrentChat_def find_never)

lemma toString_not_Nil: "toString n \<noteq> []"
  by (subst toString.simps) simp

lemma chooseThread_props:
  assumes wf: "wellFormed s" and ch: "chooseThread t_id t_created s = (i, s0)"
  shows "currentChatId s0 = Some i
       \<and> (\<exists>c. find (\<lambda>c. id_chat c = i) (chats s0) = Some c \<and> messages c = activeMessages s
              \<and> (activeMessages s \<noteq> [] \<longrightarrow> getCurrentChat s = Some c))
       \<and> inputText s0 = inputText s \<and> sourceLang s0 = sourceLang s
       \<and> targetLang s0 = targetLang s \<and> console s0 = console s \<and> storage s0 = storage s"
proof (cases "currentChatId s")
  case None
  note none = this
  have act: "activeMessages s = []" using none by (rule activeMessages_None)
  have ch': "createNewChat t_id t_created s = (i, s0)"
    using ch none by (simp add: chooseThread_def)
  show ?thesis
  proof (cases "chats s")
    case Nil
    then show ?thesis using ch' act
      by (auto simp add: createNewChat_def createFresh_def newChat_def setChats_def)
  next
    case (Cons c cs)
    then show ?thesis using ch' act
      by (auto simp add: createNewChat_def createFresh_def newChat_def setChats_def
            split: if_splits)
  qed
next
  case (Some j)
  have mem: "j \<in> set (map id_chat (chats s))" using wf Some by (simp add: wellFormed_def)
  then have "j \<noteq> []" using wf by (auto simp add: wellFormed_def list_all_iff)
  then have eq: "i = j" "s0 = s" using ch Some by (simp_all add: chooseThread_def)
  obtain c where c: "find (\<lambda>c. id_chat c = j) (chats s) = Some c"
    using find_present [OF mem] by blast
  then have "getCurrentChat s = Some c" using Some by (simp add: getCurrentChat_Some)
  then show ?thesis using eq c Some by (simp add: activeMessages_def)
qed

lemma addUserMessage_id [simp]: "id_chat (addUserMessage i txt m c) = id_chat c"
  by (simp add: addUserMessage_def)

lemma addMessage_id [simp]: "id_chat (addMessage i m c) = id_chat c"
  by (simp add: addMessage_def)

lemma addMessage_title [simp]: "title (addMessage i m c) = title c"
  by (simp add: addMessage_def)

lemma begin_props:
  assumes wf: "wellFormed s"
      and beg: "handleTranslate_begin t_id t_created t_msg s = (Some p, s1)"
  shows "currentChatId s1 = Some (activeChatId p)
       \<and> (\<exists>c. find (\<lambda>c. id_chat c = activeChatId p) (chats s1) = Some c
              \<and> messages c = activeMessages s @ [userMsg t_msg s]
              \<and> (activeMessages s = [] \<longrightarrow> title c = take 30 (inputText s) @ str ''...'')
              \<and> (activeMessages s \<noteq> []
                   \<longrightarrow> (\<exists>c0. getCurrentChat s = Some c0 \<and> title c = title c0)))"
proof -
  have ne: "trim (inputText s) \<noteq> []" using beg
    by (auto simp add: handleTranslate_begin_def split: if_splits)
  obtain i s0 where ch: "chooseThread t_id t_created s = (i, s0)"
    by (cases "chooseThread t_id t_created s")
  have p: "activeChatId p = i"
    and s1: "s1 = (setChats (map (addUserMessage i (inputText s) (userMsg t_msg s))) s0)
                    \<lparr>inputText := [], isTranslating := True\<rparr>"
    using beg ne ch by (auto simp add: handleTranslate_begin_def)
  from chooseThread_props [OF wf ch] obtain c where
    cur: "currentChatId s0 = Some i" and
    c: "find (\<lambda>c. id_chat c = i) (chats s0) = Some c" "messages c = activeMessages s"
       "activeMessages s \<noteq> [] \<longrightarrow> getCurrentChat s = Some c"
    by blast
  have "find (\<lambda>c. id_chat c = i) (chats s1)
        = Some (addUserMessage i (inputText s) (userMsg t_msg s) c)"
    using c(1) by (simp add: s1 setChats_def find_map_preserved)
  moreover have "id_chat c = i" using c(1) by (auto simp add: find_Some_iff)
  ultimately show ?thesis using cur c(2,3) p
    by (auto simp add: s1 setChats_def addUserMessage_def)
qed

lemma settle_props:
  assumes cur: "currentChatId s1 = Some i" and act: "activeChatId p = i"
      and c: "find (\<lambda>c. id_chat c = i) (chats s1) = Some c"
  shows "activeMessages (handleTranslate_settle t p out s1)
         = messages c @ [case out of OkText tt \<Rightarrow> aiMsg t p tt | _ \<Rightarrow> errorMsg t]"
proof -
  have "id_chat c = i" using c by (auto simp add: find_Some_iff)
  then show ?thesis using cur act c
    by (cases out)
       (simp_all add: handleTranslate_settle_def tryBlock_def setChats_def activeMessages_def
          getCurrentChat_def find_map_preserved addMessage_def)
qed

lemma settle_frame:
  "isTranslating (handleTranslate_settle t p out s) = False
   \<and> map id_chat (chats (handleTranslate_settle t p out s)) = map id_chat (chats s)
   \<and> map title (chats (handleTranslate_settle t p out s)) = map title (chats s)
   \<and> currentChatId (handleTranslate_settle t p out s) = currentChatId s"
  by (cases out)
     (simp_all add: handleTranslate_settle_def tryBlock_def setChats_def comp_def)

lemma System_not_a_language: "str ''System'' \<notin> label ` set LANGUAGES"
  by (simp add: LANGUAGES_def str_def)

lemma begin_accepts:
  "trim (inputText s) \<noteq> [] \<Longrightarrow>
   \<exists>p s1. handleTranslate_begin t_id t_created t_msg s = (Some p, s1) \<and> isTranslating s1"
  by (cases "chooseThread t_id t_created s") (simp add: handleTranslate_begin_def)

lemma begin_rejects_blank:
  "trim (inputText s) = [] \<Longrightarrow> handleTranslate_begin t_id t_created t_msg s = (None, s)"
  by (simp add: handleTranslate_begin_def)

lemma trim_whitespace_only:
  assumes "list_all isWhiteSpace txt"
  shows "trim txt = []"
proof -
  have "dropWhile isWhiteSpace txt = []"
    using assms by (simp add: list_all_iff)
  then show ?thesis by (simp add: trim_def del: dropWhile_eq_Nil_conv)
qed

text \<open>
  Claim C4, as the code has it. The error message of a failed submission is appended by the
  thread id the submission was made with, on whatever the thread list is when the failure
  is handled: every thread with that id gains exactly one message (role assistant, the fixed
  fallback text, label \<open>System\<close>, the label of no supported language), every other thread
  is unchanged, and the list is unchanged when that thread has been deleted meanwhile; the
  selection is not touched and the busy flag is cleared. On a well-formed page, when the
  failure is handled before any other event, that thread is the active thread and it holds
  its former messages, the user message and that one message. Nothing is thrown out of
  \<open>handleTranslate\<close>: the settled page is a state.
\<close>

theorem failed_translation_appends_to_its_thread:
  assumes "wellFormed s" and "trim (inputText s) \<noteq> []"
      and "\<forall>translated. out \<noteq> OkText translated"
  shows "(\<exists>p s1. handleTranslate_begin t_id t_created t_msg s = (Some p, s1)
            \<and> isTranslating s1
            \<and> currentChatId s1 = Some (activeChatId p)
            \<and> activeMessages (handleTranslate_settle t p out s1)
                = activeMessages s @ [userMsg t_msg s, errorMsg t]
            \<and> (\<forall>s'. chats (handleTranslate_settle t p out s')
                       = map (\<lambda>c. if id_chat c = activeChatId p
                                   then c\<lparr>messages := messages c @ [errorMsg t]\<rparr> else c)
                           (chats s')
                     \<and> (activeChatId p \<notin> id_chat ` set (chats s')
                          \<longrightarrow> chats (handleTranslate_settle t p out s') = chats s')
                     \<and> currentChatId (handleTranslate_settle t p out s') = currentChatId s'
                     \<and> \<not> isTranslating (handleTranslate_settle t p out s')))
       \<and> role (userMsg t_msg s) = User
       \<and> role (errorMsg t) = Assistant
       \<and> text_msg (errorMsg t) = fallbackText
       \<and> langLabel (errorMsg t) = str ''System''
       \<and> str ''System'' \<notin> label ` set LANGUAGES
       \<and> (\<forall>req service. (\<forall>q lp tt. service q lp \<noteq> Translated tt)
             \<longrightarrow> deliver (fst (POST req service)) = NotOk)"
proof -
  obtain p s1 where beg: "handleTranslate_begin t_id t_created t_msg s = (Some p, s1)"
    and busy: "isTranslating s1"
    using begin_accepts [OF assms(2)] by blast
  from begin_props [OF assms(1) beg] obtain c where
    cur: "currentChatId s1 = Some (activeChatId p)" and
    c: "find (\<lambda>c. id_chat c = activeChatId p) (chats s1) = Some c"
       "messages c = activeMessages s @ [userMsg t_msg s]"
    by blast
  have err: "(case out of OkText tt \<Rightarrow> aiMsg t p tt | _ \<Rightarrow> errorMsg t) = errorMsg t"
    using assms(3) by (cases out) simp_all
  have msgs: "activeMessages (handleTranslate_settle t p out s1)
              = activeMessages s @ [userMsg t_msg s, errorMsg t]"
    using settle_props [OF cur refl c(1), of t out] c(2) err by simp
  have add: "addMessage (activeChatId p) (errorMsg t)
             = (\<lambda>c. if id_chat c = activeChatId p
                     then c\<lparr>messages := messages c @ [errorMsg t]\<rparr> else c)"
    by (rule ext) (simp add: addMessage_def)
  have chats: "chats (handleTranslate_settle t p out s')
               = map (\<lambda>c. if id_chat c = activeChatId p
                           then c\<lparr>messages := messages c @ [errorMsg t]\<rparr> else c) (chats s')"
    for s'
    using assms(3) unfolding add [symmetric]
    by (cases out) (simp_all add: handleTranslate_settle_def tryBlock_def setChats_def)
  have gone: "chats (handleTranslate_settle t p out s') = chats s'"
    if "activeChatId p \<notin> id_chat ` set (chats s')" for s'
    unfolding chats using that by (intro map_idI) (force simp add: image_iff)
  have frame: "currentChatId (handleTranslate_settle t p out s') = currentChatId s'
               \<and> \<not> isTranslating (handleTranslate_settle t p out s')" for s'
    using settle_frame [of t p out s'] by simp
  have "\<forall>s'. chats (handleTranslate_settle t p out s')
                 = map (\<lambda>c. if id_chat c = activeChatId p
                             then c\<lparr>messages := messages c @ [errorMsg t]\<rparr> else c)
                     (chats s')
             \<and> (activeChatId p \<notin> id_chat ` set (chats s')
                  \<longrightarrow> chats (handleTranslate_settle t p out s') = chats s')
             \<and> currentChatId (handleTranslate_settle t p out s') = currentChatId s'
             \<and> \<not> isTranslating (handleTranslate_settle t p out s')"
    using chats gone frame by blast
  then have first: "\<exists>p s1. handleTranslate_begin t_id t_created t_msg s = (Some p, s1)
            \<and> isTranslating s1
            \<and> currentChatId s1 = Some (activeChatId p)
            \<and> activeMessages (handleTranslate_settle t p out s1)
                = activeMessages s @ [userMsg t_msg s, errorMsg t]
            \<and> (\<forall>s'. chats (handleTranslate_settle t p out s')
                       = map (\<lambda>c. if id_chat c = activeChatId p
                                   then c\<lparr>messages := messages c @ [errorMsg t]\<rparr> else c)
                           (chats s')
                     \<and> (activeChatId p \<notin> id_chat ` set (chats s')
                          \<longrightarrow> chats (handleTranslate_settle t p out s') = chats s')
                     \<and> currentChatId (handleTranslate_settle t p out s') = currentChatId s'
                     \<and> \<not> isTranslating (handleTranslate_settle t p out s'))"
    using beg busy cur msgs by blast
  have rest: "role (userMsg t_msg s) = User \<and> role (errorMsg t) = Assistant
       \<and> text_msg (errorMsg t) = fallbackText \<and> langLabel (errorMsg t) = str ''System''"
    by (simp add: userMsg_def errorMsg_def)
  show ?thesis
    using first rest System_not_a_language POST_failure by blast
qed

theorem failed_translation_appends_to_its_thread_witness:
  "wellFormed ((initial_state None)\<lparr>inputText := str ''Hi''\<rparr>)
   \<and> trim (inputText ((initial_state None)\<lparr>inputText := str ''Hi''\<rparr>)) = str ''Hi''
   \<and> (\<exists>p s1. handleTranslate_begin 1000 1000 1000 ((initial_state None)\<lparr>inputText := str ''Hi''\<rparr>)
               = (Some p, s1)
        \<and> map text_msg (activeMessages (handleTranslate_settle 1005 p Rejected s1))
            = [str ''Hi'', fallbackText]
        \<and> map role (activeMessages (handleTranslate_settle 1005 p Rejected s1))
            = [User, Assistant]
        \<and> map langLabel (activeMessages (handleTranslate_settle 1005 p Rejected s1))
            = [str ''English'', str ''System'']
        \<and> chats (handleTranslate_settle 1005 p Rejected (initial_state None)) = []
        \<and> \<not> isTranslating (handleTranslate_settle 1005 p Rejected s1))"
proof -
  let ?s = "(initial_state None)\<lparr>inputText := str ''Hi''\<rparr>"
  have wf: "wellFormed ?s" by (simp add: wellFormed_def initial_state_def)
  have tr: "trim (inputText ?s) = str ''Hi''"
    by (simp add: trim_def initial_state_def str_def isWhiteSpace_def)
  then have ne: "trim (inputText ?s) \<noteq> []" by (simp add: str_def)
  have out: "\<forall>translated. Rejected \<noteq> OkText translated" by simp
  have act: "activeMessages ?s = []" by (simp add: activeMessages_None initial_state_def)
  have lab: "langLabel (userMsg 1000 ?s) = str ''English''"
    by (simp add: userMsg_def findLanguage_def LANGUAGES_def initial_state_def str_def)
  have empty: "chats (initial_state None) = []" by (simp add: initial_state_def)
  from failed_translation_appends_to_its_thread [OF wf ne out, of 1000 1000 1000 1005]
  obtain p s1 where
    b: "handleTranslate_begin 1000 1000 1000 ?s = (Some p, s1)"
    and m: "activeMessages (handleTranslate_settle 1005 p Rejected s1)
            = activeMessages ?s @ [userMsg 1000 ?s, errorMsg 1005]"
    and g: "\<forall>s'. chats (handleTranslate_settle 1005 p Rejected s')
                 = map (\<lambda>c. if id_chat c = activeChatId p
                             then c\<lparr>messages := messages c @ [errorMsg 1005]\<rparr> else c)
                     (chats s')
             \<and> (activeChatId p \<notin> id_chat ` set (chats s')
                  \<longrightarrow> chats (handleTranslate_settle 1005 p Rejected s') = chats s')
             \<and> currentChatId (handleTranslate_settle 1005 p Rejected s') = currentChatId s'
             \<and> \<not> isTranslating (handleTranslate_settle 1005 p Rejected s')"
    by blast
  have "chats (handleTranslate_settle 1005 p Rejected (initial_state None)) = []"
    using g [rule_format, of "initial_state None"] empty by simp
  moreover have "\<not> isTranslating (handleTranslate_settle 1005 p Rejected s1)"
    using g by blast
  ultimately show ?thesis using wf tr act lab b m
    by (auto simp add: userMsg_def errorMsg_def)
qed

text \<open>
  Claim C9. On a well-formed page, the user message of an accepted submission is appended
  to the thread the submission is made in. If that thread had no messages, its title becomes the first 30
  code units of the text followed by \<open>...\<close> (\<open>Hello\<close> gives \<open>Hello...\<close>); if it had
  messages, its title stays. Appending the assistant or the error message, whenever the
  request settles, changes no title.
\<close>

theorem first_message_sets_title:
  assumes "wellFormed s" and "trim (inputText s) \<noteq> []"
  shows "(\<exists>p s1 c. handleTranslate_begin t_id t_created t_msg s = (Some p, s1)
            \<and> getCurrentChat s1 = Some c
            \<and> messages c = activeMessages s @ [userMsg t_msg s]
            \<and> text_msg (userMsg t_msg s) = inputText s
            \<and> (activeMessages s = [] \<longrightarrow> title c = take 30 (inputText s) @ str ''...'')
            \<and> (activeMessages s \<noteq> []
                 \<longrightarrow> (\<exists>c0. getCurrentChat s = Some c0 \<and> title c = title c0))
            \<and> (\<forall>t out s'. map title (chats (handleTranslate_settle t p out s'))
                            = map title (chats s')))
       \<and> take 30 (str ''Hello'') @ str ''...'' = str ''Hello...''"
proof -
  obtain p s1 where beg: "handleTranslate_begin t_id t_created t_msg s = (Some p, s1)"
    using begin_accepts [OF assms(2)] by blast
  from begin_props [OF assms(1) beg] obtain c where
    cur: "currentChatId s1 = Some (activeChatId p)" and
    c: "find (\<lambda>c. id_chat c = activeChatId p) (chats s1) = Some c"
       "messages c = activeMessages s @ [userMsg t_msg s]"
       "activeMessages s = [] \<longrightarrow> title c = take 30 (inputText s) @ str ''...''"
       "activeMessages s \<noteq> [] \<longrightarrow> (\<exists>c0. getCurrentChat s = Some c0 \<and> title c = title c0)"
    by blast
  have "getCurrentChat s1 = Some c" using cur c(1) by (simp add: getCurrentChat_Some)
  then show ?thesis using beg c(2,3,4) settle_frame
    by (simp add: userMsg_def str_def)
qed

theorem first_message_sets_title_witness:
  "wellFormed ((initial_state None)\<lparr>inputText := str ''Hello''\<rparr>)
   \<and> trim (inputText ((initial_state None)\<lparr>inputText := str ''Hello''\<rparr>)) = str ''Hello''
   \<and> activeMessages ((initial_state None)\<lparr>inputText := str ''Hello''\<rparr>) = []
   \<and> (\<exists>p s1 c. handleTranslate_begin 1000 1000 1000
                   ((initial_state None)\<lparr>inputText := str ''Hello''\<rparr>) = (Some p, s1)
        \<and> getCurrentChat s1 = Some c
        \<and> map text_msg (messages c) = [str ''Hello'']
        \<and> title c = str ''Hello...'')"
proof -
  let ?s = "(initial_state None)\<lparr>inputText := str ''Hello''\<rparr>"
  have wf: "wellFormed ?s" by (simp add: wellFormed_def initial_state_def)
  have tr: "trim (inputText ?s) = str ''Hello''"
    by (simp add: trim_def initial_state_def str_def isWhiteSpace_def)
  then have ne: "trim (inputText ?s) \<noteq> []" by (simp add: str_def)
  have act: "activeMessages ?s = []" by (simp add: activeMessages_None initial_state_def)
  have inp: "inputText ?s = str ''Hello''" by (simp add: initial_state_def)
  from first_message_sets_title [OF wf ne, of 1000 1000 1000]
  show ?thesis using wf tr act inp
    by (auto simp add: userMsg_def)
qed

section \<open>Sessions\<close>

lemma commit_simps [simp]:
  "chats (commit s) = chats s" "currentChatId (commit s) = currentChatId s"
  "inputText (commit s) = inputText s" "isTranslating (commit s) = isTranslating s"
  "sourceLang (commit s) = sourceLang s" "targetLang (commit s) = targetLang s"
  "isSidebarOpen (commit s) = isSidebarOpen s" "console (commit s) = console s"
  "chatsChanged (commit s) = False"
  by (simp_all add: commit_def saveEffect_def)

lemma wellFormed_ids:
  "wellFormed s \<longleftrightarrow>
     [] \<notin> set (map id_chat (chats s))
     \<and> (case currentChatId s of None \<Rightarrow> True | Some i \<Rightarrow> i \<in> set (map id_chat (chats s)))"
  by (cases "currentChatId s") (force simp add: wellFormed_def list_all_iff image_iff)+

lemma wellFormed_cong:
  "map id_chat (chats s') = map id_chat (chats s) \<Longrightarrow> currentChatId s' = currentChatId s \<Longrightarrow>
   wellFormed s' = wellFormed s"
  by (simp only: wellFormed_ids)

lemma wellFormed_initial: "wellFormed (initial_state slot)"
  by (simp add: wellFormed_def initial_state_def)

lemma wellFormed_createNewChat:
  "wellFormed s \<Longrightarrow> wellFormed (snd (createNewChat t_id t_created s))"
  by (cases "chats s")
     (auto simp add: wellFormed_def createNewChat_def createFresh_def newChat_def setChats_def
        toString_not_Nil split: option.splits)

lemma wellFormed_selectChat:
  "wellFormed s \<Longrightarrow> k < length (chats s) \<Longrightarrow>
   wellFormed (selectChat (id_chat (chats s ! k)) s)"
  by (simp add: wellFormed_def selectChat_def)

lemma wellFormed_deleteChat:
  assumes "wellFormed s"
  shows "wellFormed (deleteChat i s)"
proof -
  let ?new = "filter (\<lambda>c. id_chat c \<noteq> i) (chats s)"
  have chats: "chats (deleteChat i s) = ?new"
    by (simp add: deleteChat_def Let_def setChats_def)
  have ids: "list_all (\<lambda>c. id_chat c \<noteq> []) ?new"
    using assms by (simp add: wellFormed_def list_all_iff)
  show ?thesis
  proof (cases "currentChatId s = Some i")
    case True
    then have "currentChatId (deleteChat i s)
               = (case ?new of c # _ \<Rightarrow> Some (id_chat c) | [] \<Rightarrow> None)"
      by (simp add: deleteChat_def Let_def setChats_def)
    then show ?thesis using chats ids
      by (cases ?new) (simp_all add: wellFormed_def)
  next
    case False
    then have cur: "currentChatId (deleteChat i s) = currentChatId s"
      by (simp add: deleteChat_def Let_def setChats_def)
    show ?thesis
    proof (cases "currentChatId s")
      case None
      then show ?thesis using chats ids cur by (simp add: wellFormed_def)
    next
      case (Some j)
      then have "j \<noteq> i" using False by simp
      moreover have "j \<in> id_chat ` set (chats s)" using assms Some by (simp add: wellFormed_def)
      ultimately have "j \<in> id_chat ` set ?new" by auto
      then show ?thesis using chats ids cur Some by (simp add: wellFormed_def)
    qed
  qed
qed

lemma wellFormed_begin:
  assumes "wellFormed s"
  shows "wellFormed (snd (handleTranslate_begin t_id t_created t_msg s))"
proof (cases "trim (inputText s) = []")
  case True
  then show ?thesis using assms by (simp add: handleTranslate_begin_def)
next
  case False
  obtain i s0 where ch: "chooseThread t_id t_created s = (i, s0)"
    by (cases "chooseThread t_id t_created s")
  have "wellFormed s0"
  proof (cases "\<exists>j. currentChatId s = Some j \<and> j \<noteq> []")
    case True
    then show ?thesis using ch assms by (auto simp add: chooseThread_def)
  next
    case False
    then have "s0 = snd (createNewChat t_id t_created s)"
      using ch by (auto simp add: chooseThread_def split: option.splits if_splits)
    then show ?thesis using wellFormed_createNewChat [OF assms] by simp
  qed
  moreover have "wellFormed (snd (handleTranslate_begin t_id t_created t_msg s)) = wellFormed s0"
    using False ch
    by (intro wellFormed_cong) (simp_all add: handleTranslate_begin_def setChats_def comp_def)
  ultimately show ?thesis by simp
qed

lemma wellFormed_settle:
  "wellFormed s \<Longrightarrow> wellFormed (handleTranslate_settle t p out s)"
  using settle_frame [of t p out s] wellFormed_cong [of "handleTranslate_settle t p out s" s]
  by simp

lemma wellFormed_handle: "wellFormed (page b) \<Longrightarrow> wellFormed (page (handle e b))"
proof (cases e)
  case (NewChatClicked t_id t_created)
  then show "wellFormed (page b) \<Longrightarrow> ?thesis" by (simp add: wellFormed_createNewChat)
next
  case (ChatClicked k)
  then show "wellFormed (page b) \<Longrightarrow> ?thesis" by (simp add: wellFormed_selectChat)
next
  case (DeleteClicked k)
  then show "wellFormed (page b) \<Longrightarrow> ?thesis" by (simp add: wellFormed_deleteChat)
next
  case (InputChanged v)
  then show "wellFormed (page b) \<Longrightarrow> ?thesis"
    by (simp add: wellFormed_def split: option.splits)
next
  case (SourceSelected c)
  then show "wellFormed (page b) \<Longrightarrow> ?thesis"
    by (simp add: wellFormed_def split: option.splits)
next
  case (TargetSelected c)
  then show "wellFormed (page b) \<Longrightarrow> ?thesis"
    by (simp add: wellFormed_def split: option.splits)
next
  case (EnterPressed shiftKey t_id t_created t_msg)
  then show "wellFormed (page b) \<Longrightarrow> ?thesis"
    using wellFormed_begin [of "page b" t_id t_created t_msg]
    by (auto simp add: submit_def split: prod.splits option.splits)
next
  case (SendClicked t_id t_created t_msg)
  then show "wellFormed (page b) \<Longrightarrow> ?thesis"
    using wellFormed_begin [of "page b" t_id t_created t_msg]
    by (auto simp add: submit_def split: prod.splits option.splits)
next
  case (FetchSettled k out t)
  then show "wellFormed (page b) \<Longrightarrow> ?thesis" by (simp add: wellFormed_settle)
qed

lemma page_step [simp]: "page (step e b) = commit (page (handle e b))"
  by (simp add: step_def)

lemma inflight_step [simp]: "inflight (step e b) = inflight (handle e b)"
  by (simp add: step_def)

lemma wellFormed_step: "wellFormed (page b) \<Longrightarrow> wellFormed (page (step e b))"
  using wellFormed_handle [of b e] wellFormed_cong [of "commit (page (handle e b))" "page (handle e b)"]
  by simp

lemma run_Nil [simp]: "run [] b = b"
  by (simp add: run_def)

lemma run_Cons [simp]: "run (e # es) b = run es (step e b)"
  by (simp add: run_def)

lemma run_snoc: "run (es @ [e]) b = step e (run es b)"
  by (simp add: run_def)

lemma wellFormed_run: "wellFormed (page b) \<Longrightarrow> wellFormed (page (run es b))"
proof (induction es arbitrary: b)
  case Nil
  then show ?case by simp
next
  case (Cons e es)
  from Cons.IH [OF wellFormed_step [OF Cons.prems]] show ?case by simp
qed

lemma wellFormed_reachable: "wellFormed (page (run es fresh_session))"
  by (rule wellFormed_run) (simp add: fresh_session_def wellFormed_initial)

subsection \<open>Two runs of the page\<close>

lemmas eval_defs =
  fresh_session_def initial_state_def submit_def handleTranslate_begin_def chooseThread_def
  createNewChat_def createFresh_def newChat_def setChats_def trim_def isWhiteSpace_def str_def
  activeMessages_def getCurrentChat_def addUserMessage_def addMessage_def userMsg_def
  handleTranslate_settle_def tryBlock_def aiMsg_def errorMsg_def sendDisabled_def

text \<open>
  Claim C3. \<open>handleTranslate\<close> returns at once on a blank input (\<open>begin_rejects_blank\<close>),
  and the Send button is disabled while a request is in flight. The Enter key of the text
  area calls \<open>handleTranslate\<close> directly, and \<open>handleTranslate\<close> does not read
  \<open>isTranslating\<close>: with a request in flight and \<open>Yo\<close> typed, Enter appends \<open>Yo\<close> to the
  thread and sends a second request, so two are in flight.
\<close>

theorem enter_key_submits_while_translating:
  "isTranslating (page (run [InputChanged (str ''Hi''), EnterPressed False 1000 1000 1000,
                             InputChanged (str ''Yo'')] fresh_session))
   \<and> length (inflight (run [InputChanged (str ''Hi''), EnterPressed False 1000 1000 1000,
                            InputChanged (str ''Yo''), EnterPressed False 2000 2000 2000]
                         fresh_session)) = 2
   \<and> map text_msg (activeMessages (page
        (run [InputChanged (str ''Hi''), EnterPressed False 1000 1000 1000,
              InputChanged (str ''Yo''), EnterPressed False 2000 2000 2000] fresh_session)))
       = [str ''Hi'', str ''Yo'']"
  by (simp add: eval_defs toString_not_Nil)

text \<open>
  Claim C10. Message ids are \<open>Date.now()\<close> for a user message and \<open>Date.now() + 1\<close> for
  the answer or the error. A first submission at clock 1000 whose answer is handled at clock
  1005, and a second submission at clock 1006, leave the thread with the ids 1000, 1006 and
  1006: the first answer and the second user message share an id.
\<close>

theorem message_ids_collide:
  "map id_msg (activeMessages (page
     (run [InputChanged (str ''Hi''), EnterPressed False 1000 1000 1000,
           FetchSettled 0 (OkText (str ''Salut'')) 1005,
           InputChanged (str ''Yo''), EnterPressed False 1006 1006 1006] fresh_session)))
     = [toString 1000, toString 1006, toString 1006]
   \<and> \<not> distinct (map id_msg (activeMessages (page
     (run [InputChanged (str ''Hi''), EnterPressed False 1000 1000 1000,
           FetchSettled 0 (OkText (str ''Salut'')) 1005,
           InputChanged (str ''Yo''), EnterPressed False 1006 1006 1006] fresh_session))))"
  by (simp add: eval_defs toString_not_Nil)

text \<open>
  A failed submission whose thread is deleted while the request is in flight adds nothing:
  the list is empty afterwards. When another thread is created and selected meanwhile, the
  error message goes to the thread of the submission and the active thread stays empty.
\<close>

theorem failed_submission_to_deleted_thread_adds_nothing:
  "chats (page (run [InputChanged (str ''Hi''), EnterPressed False 1000 1000 1000,
                     DeleteClicked 0, FetchSettled 0 Rejected 1005] fresh_session)) = []
   \<and> activeMessages (page (run [InputChanged (str ''Hi''), EnterPressed False 1000 1000 1000,
                     DeleteClicked 0, FetchSettled 0 Rejected 1005] fresh_session)) = []
   \<and> inflight (run [InputChanged (str ''Hi''), EnterPressed False 1000 1000 1000,
                     DeleteClicked 0, FetchSettled 0 Rejected 1005] fresh_session) = []
   \<and> currentChatId (page (run [InputChanged (str ''Hi''), EnterPressed False 1000 1000 1000,
                     NewChatClicked 1500 1500, FetchSettled 0 Rejected 1005] fresh_session))
       = Some (toString 1500)
   \<and> activeMessages (page (run [InputChanged (str ''Hi''), EnterPressed False 1000 1000 1000,
                     NewChatClicked 1500 1500, FetchSettled 0 Rejected 1005] fresh_session)) = []
   \<and> map (\<lambda>c. (id_chat c, map role (messages c)))
        (chats (page (run [InputChanged (str ''Hi''), EnterPressed False 1000 1000 1000,
                     NewChatClicked 1500 1500, FetchSettled 0 Rejected 1005] fresh_session)))
       = [(toString 1500, []), (toString 1000, [User, Assistant])]"
  by (simp add: eval_defs toString_not_Nil deleteChat_def Let_def toString.simps digit_def)

section \<open>Persistence\<close>

subsection \<open>Decimal numerals\<close>

lemma unat_digit: "d < 10 \<Longrightarrow> unat (digit d) = 48 + d"
  unfolding digit_def unat_of_nat by simp

lemma isDigit_digit: "d < 10 \<Longrightarrow> isDigit (digit d)"
  by (simp add: isDigit_def word_le_nat_alt unat_digit)

lemma digit_eq_zero: "d < 10 \<Longrightarrow> digit d = 0x30 \<longleftrightarrow> d = 0"
  by (simp add: word_eq_iff_unsigned [where ?'a = nat] unat_digit)

lemma toString_digits:
  "toString n \<noteq> [] \<and> list_all isDigit (toString n) \<and> (hd (toString n) = 0x30 \<longrightarrow> n = 0)"
proof (induction n rule: toString.induct)
  case (1 n)
  show ?case
  proof (cases "n < 10")
    case True
    then show ?thesis
      by (subst (1 2 3) toString.simps) (simp add: isDigit_digit digit_eq_zero)
  next
    case False
    then have "n div 10 \<noteq> 0" by simp
    then show ?thesis using 1 False
      by (subst (1 2 3) toString.simps) (simp add: isDigit_digit)
  qed
qed

lemma isIntegerLiteral_toString: "isIntegerLiteral (toString n)"
proof (cases "toString n")
  case Nil
  then show ?thesis using toString_digits [of n] by simp
next
  case (Cons d ds)
  show ?thesis
  proof (cases "d = 0x30")
    case True
    then have "n = 0" using toString_digits [of n] Cons by simp
    then have "toString n = [0x30]" by (simp add: toString.simps digit_def)
    then show ?thesis by (simp add: isIntegerLiteral_def)
  next
    case False
    then show ?thesis using toString_digits [of n] Cons by (simp add: isIntegerLiteral_def)
  qed
qed

lemma digitsValue_snoc: "digitsValue (ds @ [d]) = 10 * digitsValue ds + (unat d - 48)"
  by (simp add: digitsValue_def)

lemma digitsValue_toString: "digitsValue (toString n) = n"
proof (induction n rule: toString.induct)
  case (1 n)
  show ?case
  proof (cases "n < 10")
    case True
    then show ?thesis
      by (subst toString.simps) (simp add: digitsValue_def unat_digit)
  next
    case False
    then show ?thesis using 1
      by (subst toString.simps) (simp add: digitsValue_snoc unat_digit)
  qed
qed

subsection \<open>The codec of the thread list\<close>

lemma asString_JStr [simp]: "asString (JStr s) = Some s"
  by (simp add: asString_def)

lemma decRole_encRole: "Option.bind (asString (encRole r)) decRole = Some r"
  by (cases r) (simp_all add: encRole_def decRole_def str_def)

lemma decMessage_encMessage: "decMessage (encMessage m) = Some m"
  by (simp add: decMessage_def encMessage_def decRole_encRole)

lemma those_map_Some: "(\<And>x. f (g x) = Some x) \<Longrightarrow> those (map (f \<circ> g) xs) = Some xs"
  by (induction xs) simp_all

lemma decMessages_enc: "decMessages (JArr (map encMessage ms)) = Some ms"
  by (simp add: decMessages_def those_map_Some decMessage_encMessage)

lemma decChat_encChat:
  "createdAt c \<le> 9007199254740992 \<Longrightarrow> decChat (encChat c) = Some c"
  by (simp add: decChat_def encChat_def decMessages_enc decTimestamp_def
        isIntegerLiteral_toString digitsValue_toString)

lemma decChats_encChats:
  assumes "representable cs"
  shows "decChats (encChats cs) = Some cs"
proof -
  have "those (map (decChat \<circ> encChat) cs) = Some cs"
    using assms unfolding representable_def
    by (induction cs) (simp_all add: decChat_encChat)
  then show ?thesis by (simp add: decChats_def encChats_def)
qed

lemma plainValue_encMessage: "plainValue (encMessage m)"
  by (cases "role m") (simp_all add: encMessage_def encRole_def str_def)

lemma plainElements_encMessages: "plainElements (map encMessage ms)"
  by (induction ms) (simp_all add: plainValue_encMessage)

lemma plainValue_encChat: "plainValue (encChat c)"
  by (simp add: encChat_def plainElements_encMessages isIntegerLiteral_toString str_def)

lemma plainValue_encChats: "plainValue (encChats cs)"
proof -
  have "plainElements (map encChat cs)"
    by (induction cs) (simp_all add: plainValue_encChat)
  then show ?thesis by (simp add: encChats_def)
qed

lemma JSON_parse_stringify: "JSON_parse (JSON_stringify cs) = Some (encChats cs)"
  unfolding JSON_stringify_def by (rule JSON_parse_serialize) (rule plainValue_encChats)

lemma JSON_stringify_not_Nil [simp]: "JSON_stringify cs \<noteq> []"
  by (simp add: JSON_stringify_def encChats_def)

lemma JSON_stringify_Nil: "JSON_stringify [] = str ''[]''"
  by (simp add: JSON_stringify_def encChats_def str_def)

subsection \<open>Loading what was saved\<close>

lemma saveEffect_simps [simp]:
  "chats (saveEffect cs s) = chats s" "currentChatId (saveEffect cs s) = currentChatId s"
  "console (saveEffect cs s) = console s" "chatsChanged (saveEffect cs s) = chatsChanged s"
  "inputText (saveEffect cs s) = inputText s" "isTranslating (saveEffect cs s) = isTranslating s"
  by (simp_all add: saveEffect_def)

lemma saveEffect_storage:
  "storage (saveEffect cs s)
   = (if cs \<noteq> [] \<or> (storage s \<noteq> None \<and> storage s \<noteq> Some [])
      then Some (JSON_stringify cs) else storage s)"
  by (auto simp add: saveEffect_def)

lemma loadEffect_absent:
  "slot = None \<or> slot = Some [] \<Longrightarrow> loadEffect (initial_state slot) = Inr (initial_state slot)"
  by (auto simp add: loadEffect_def initial_state_def)

lemma loadEffect_saved:
  assumes "representable cs"
  shows "\<exists>s'. loadEffect (initial_state (Some (JSON_stringify cs))) = Inr s' \<and> chats s' = cs"
  using assms
  by (simp add: loadEffect_def initial_state_def JSON_parse_stringify decChats_encChats
        setChats_def)

lemma mount_chats:
  "loadEffect (initial_state slot) = Inr s' \<Longrightarrow>
   \<exists>s''. mount slot = Inr s'' \<and> chats s'' = chats s' \<and> console s'' = console s'
          \<and> currentChatId s'' = currentChatId s'"
  by (simp add: mount_def)

text \<open>
  Claim C6. For a thread list whose timestamps are JavaScript integers (at most \<open>2^53\<close>),
  the text \<open>JSON.stringify\<close> writes parses back to the value that was written, that value
  is the list itself, and a page mounted on the slot the save effect leaves shows a thread
  list equal to the one saved.
\<close>

theorem save_then_load_roundtrip:
  assumes "representable cs"
  shows "JSON_parse (JSON_stringify cs) = Some (encChats cs)
       \<and> decChats (encChats cs) = Some cs
       \<and> (\<exists>s'. loadEffect (initial_state (storage (saveEffect cs s))) = Inr s' \<and> chats s' = cs)
       \<and> (\<exists>s'. mount (storage (saveEffect cs s)) = Inr s' \<and> chats s' = cs)"
proof -
  have load: "\<exists>s'. loadEffect (initial_state (storage (saveEffect cs s))) = Inr s' \<and> chats s' = cs"
  proof (cases "cs \<noteq> [] \<or> (storage s \<noteq> None \<and> storage s \<noteq> Some [])")
    case True
    then have "storage (saveEffect cs s) = Some (JSON_stringify cs)"
      by (simp add: saveEffect_storage)
    then show ?thesis using loadEffect_saved [OF assms] by simp
  next
    case False
    then have st: "storage (saveEffect cs s) = storage s" and cs: "cs = []"
      and slot: "storage s = None \<or> storage s = Some []"
      by (auto simp add: saveEffect_storage)
    show ?thesis using loadEffect_absent [OF slot] st cs by (simp add: initial_state_def)
  qed
  then obtain s' where s': "loadEffect (initial_state (storage (saveEffect cs s))) = Inr s'"
    "chats s' = cs" by blast
  from mount_chats [OF s'(1)] s'(2)
  have "\<exists>s'. mount (storage (saveEffect cs s)) = Inr s' \<and> chats s' = cs" by auto
  then show ?thesis using load JSON_parse_stringify decChats_encChats [OF assms] by simp
qed

theorem save_then_load_roundtrip_witness:
  "representable [\<lparr>id_chat = toString 1000, title = str ''Hello...'',
                   messages = [\<lparr>id_msg = toString 1000, role = User, text_msg = str ''Hello'',
                                langLabel = str ''English'', langCode = str ''en-US''\<rparr>],
                   createdAt = 1000\<rparr>]
   \<and> (\<exists>s'. mount (storage (saveEffect
          [\<lparr>id_chat = toString 1000, title = str ''Hello...'',
            messages = [\<lparr>id_msg = toString 1000, role = User, text_msg = str ''Hello'',
                         langLabel = str ''English'', langCode = str ''en-US''\<rparr>],
            createdAt = 1000\<rparr>] (initial_state None))) = Inr s'
        \<and> chats s'
           = [\<lparr>id_chat = toString 1000, title = str ''Hello...'',
               messages = [\<lparr>id_msg = toString 1000, role = User, text_msg = str ''Hello'',
                            langLabel = str ''English'', langCode = str ''en-US''\<rparr>],
               createdAt = 1000\<rparr>])"
  using save_then_load_roundtrip
          [of "[\<lparr>id_chat = toString 1000, title = str ''Hello...'',
                 messages = [\<lparr>id_msg = toString 1000, role = User, text_msg = str ''Hello'',
                              langLabel = str ''English'', langCode = str ''en-US''\<rparr>],
                 createdAt = 1000\<rparr>]" "initial_state None"]
  by (simp add: representable_def)

subsection \<open>A blob that does not parse\<close>

lemma JSON_parse_empty: "JSON_parse [] = None"
  by (simp add: JSON_parse_def parseValue.simps skipWhiteSpace_def)

text \<open>
  Claim C7, as the code has it. A stored text that is not empty and that \<open>JSON.parse\<close>
  rejects leaves every cell of the page as it was and adds one line to the console; the
  mounted page has the empty thread list and no active thread, and nothing is thrown.
  The empty string is skipped by \<open>if (saved)\<close> like a missing key: nothing is parsed and
  nothing is logged.
\<close>

theorem malformed_blob_degrades_to_empty:
  assumes "storage s = Some blob" and "blob \<noteq> []" and "JSON_parse blob = None"
  shows "loadEffect s = Inr (s\<lparr>console := console s @ [str ''Failed to load chats'']\<rparr>)
       \<and> (\<exists>s'. mount (Some blob) = Inr s' \<and> chats s' = [] \<and> currentChatId s' = None
              \<and> console s' = [str ''Failed to load chats''])
       \<and> loadEffect (initial_state (Some [])) = Inr (initial_state (Some []))"
proof -
  have "loadEffect (initial_state (Some blob))
        = Inr ((initial_state (Some blob))\<lparr>console := [str ''Failed to load chats'']\<rparr>)"
    using assms(2,3) by (simp add: loadEffect_def initial_state_def)
  from mount_chats [OF this]
  have "\<exists>s'. mount (Some blob) = Inr s' \<and> chats s' = [] \<and> currentChatId s' = None
              \<and> console s' = [str ''Failed to load chats'']"
    by (auto simp add: initial_state_def)
  then show ?thesis using assms loadEffect_absent [of "Some []"]
    by (simp add: loadEffect_def)
qed

theorem malformed_blob_degrades_to_empty_witness:
  "storage (initial_state (Some (str ''{bad''))) = Some (str ''{bad'')
   \<and> str ''{bad'' \<noteq> []
   \<and> JSON_parse (str ''{bad'') = None
   \<and> loadEffect (initial_state (Some (str ''{bad'')))
       = Inr ((initial_state (Some (str ''{bad'')))\<lparr>console := [str ''Failed to load chats'']\<rparr>)"
proof -
  have p: "JSON_parse (str ''{bad'') = None"
    by (simp add: JSON_parse_def parseValue.simps parseMembers.simps skipWhiteSpace_def
          isJSONWhiteSpace_def str_def)
  have st: "storage (initial_state (Some (str ''{bad''))) = Some (str ''{bad'')"
    by (simp add: initial_state_def)
  have ne: "str ''{bad'' \<noteq> []" by (simp add: str_def)
  from malformed_blob_degrades_to_empty [OF st ne p]
  show ?thesis using st ne p by (simp add: initial_state_def)
qed

theorem empty_blob_logs_nothing:
  "JSON_parse [] = None
   \<and> loadEffect (initial_state (Some [])) = Inr (initial_state (Some []))
   \<and> console (initial_state (Some [])) = []"
  by (simp add: JSON_parse_empty loadEffect_absent) (simp add: initial_state_def)

subsection \<open>The slot once it has been written\<close>

lemma createNewChat_frame:
  "storage (snd (createNewChat t_id t_created s)) = storage s
   \<and> (chatsChanged (snd (createNewChat t_id t_created s))
      \<or> chats (snd (createNewChat t_id t_created s)) = chats s
        \<and> chatsChanged (snd (createNewChat t_id t_created s)) = chatsChanged s)"
  by (cases "chats s")
     (simp_all add: createNewChat_def createFresh_def setChats_def)

lemma deleteChat_frame:
  "storage (deleteChat i s) = storage s \<and> chatsChanged (deleteChat i s)"
  by (simp add: deleteChat_def Let_def setChats_def)

lemma begin_frame:
  "storage (snd (handleTranslate_begin t_id t_created t_msg s)) = storage s
   \<and> (chatsChanged (snd (handleTranslate_begin t_id t_created t_msg s))
      \<or> snd (handleTranslate_begin t_id t_created t_msg s) = s)"
proof (cases "trim (inputText s) = []")
  case True
  then show ?thesis by (simp add: handleTranslate_begin_def)
next
  case False
  obtain i s0 where ch: "chooseThread t_id t_created s = (i, s0)"
    by (cases "chooseThread t_id t_created s")
  have "storage s0 = storage s"
    using ch createNewChat_frame [of t_id t_created s]
    by (auto simp add: chooseThread_def split: option.splits if_splits)
  then show ?thesis using False ch
    by (simp add: handleTranslate_begin_def setChats_def)
qed

lemma settle_storage:
  "storage (handleTranslate_settle t p out s) = storage s
   \<and> chatsChanged (handleTranslate_settle t p out s)"
  by (cases out) (simp_all add: handleTranslate_settle_def tryBlock_def setChats_def)

lemma submit_frame:
  "storage (page (submit t_id t_created t_msg b)) = storage (page b)
   \<and> (chatsChanged (page (submit t_id t_created t_msg b))
      \<or> page (submit t_id t_created t_msg b) = page b)"
  using begin_frame [of t_id t_created t_msg "page b"]
  by (auto simp add: submit_def split: prod.splits option.splits)

lemma handle_frame:
  "storage (page (handle e b)) = storage (page b)
   \<and> (chatsChanged (page (handle e b))
      \<or> chats (page (handle e b)) = chats (page b)
        \<and> chatsChanged (page (handle e b)) = chatsChanged (page b))"
proof (cases e)
  case (NewChatClicked t_id t_created)
  then show ?thesis using createNewChat_frame [of t_id t_created "page b"] by simp
next
  case (ChatClicked k)
  then show ?thesis by (simp add: selectChat_def)
next
  case (DeleteClicked k)
  then show ?thesis by (simp add: deleteChat_frame)
next
  case (EnterPressed shiftKey t_id t_created t_msg)
  then show ?thesis using submit_frame [of t_id t_created t_msg b] by auto
next
  case (SendClicked t_id t_created t_msg)
  then show ?thesis using submit_frame [of t_id t_created t_msg b] by auto
next
  case (FetchSettled k out t)
  then show ?thesis by (simp add: settle_storage)
qed simp_all

lemma step_keeps_synced:
  assumes "storage (page b) = Some (JSON_stringify (chats (page b)))"
      and "\<not> chatsChanged (page b)"
  shows "storage (page (step e b)) = Some (JSON_stringify (chats (page (step e b))))
       \<and> \<not> chatsChanged (page (step e b))"
  using assms handle_frame [of e b]
  by (auto simp add: commit_def saveEffect_storage)

lemma step_write_syncs:
  assumes "\<not> chatsChanged (page b)"
      and "storage (page (step e b)) \<noteq> storage (page b)"
  shows "storage (page (step e b)) = Some (JSON_stringify (chats (page (step e b))))"
  using assms handle_frame [of e b]
  by (auto simp add: commit_def saveEffect_storage split: if_splits)

lemma run_keeps_synced:
  assumes "storage (page b) = Some (JSON_stringify (chats (page b)))"
      and "\<not> chatsChanged (page b)"
  shows "storage (page (run es b)) = Some (JSON_stringify (chats (page (run es b))))"
  using assms
proof (induction es arbitrary: b)
  case Nil
  then show ?case by simp
next
  case (Cons e es)
  from step_keeps_synced [OF Cons.prems, of e]
  show ?case using Cons.IH [of "step e b"] by simp
qed

lemma empty_list_persisted:
  "storage (page (run [NewChatClicked 1 1, DeleteClicked 0] fresh_session)) = Some (str ''[]'')
   \<and> chats (page (run [NewChatClicked 1 1, DeleteClicked 0] fresh_session)) = []"
  by (simp add: fresh_session_def initial_state_def createNewChat_def createFresh_def
        newChat_def setChats_def deleteChat_def Let_def commit_def saveEffect_def
        JSON_stringify_Nil)

lemma mount_slot:
  assumes "mount slot = Inr s"
  shows "\<not> chatsChanged s
       \<and> (storage s = None \<or> storage s = Some []
          \<or> storage s = Some (JSON_stringify (chats s)))"
proof (cases "slot = None \<or> slot = Some []")
  case True
  then have "mount slot = Inr (initial_state slot)"
    using loadEffect_absent [OF True]
    by (auto simp add: mount_def commit_def saveEffect_def initial_state_def)
  then show ?thesis using assms True by (auto simp add: initial_state_def)
next
  case False
  then obtain blob where blob: "slot = Some blob" "blob \<noteq> []" by auto
  show ?thesis
  proof (cases "JSON_parse blob")
    case None
    then show ?thesis using assms blob
      by (auto simp add: mount_def loadEffect_def commit_def saveEffect_def initial_state_def)
  next
    case (Some parsed)
    then show ?thesis using assms blob
      by (auto simp add: mount_def loadEffect_def commit_def saveEffect_def initial_state_def
            setChats_def split: option.splits)
  qed
qed

text \<open>
  Claim C8. A step that writes the slot leaves in it the serialised thread list of the
  page. From then on every step leaves the slot equal to the serialised thread list, the
  empty list included, so the slot is never absent again. A mounted page has a slot that is
  absent, empty, or equal to the serialised thread list. The slot of a fresh page is
  absent; creating a thread and deleting it leaves the text \<open>[]\<close> in the slot, with an
  empty thread list.
\<close>

theorem persisted_list_stays_present:
  "(\<forall>b e. \<not> chatsChanged (page b) \<and> storage (page (step e b)) \<noteq> storage (page b)
       \<longrightarrow> storage (page (step e b)) = Some (JSON_stringify (chats (page (step e b))))
           \<and> \<not> chatsChanged (page (step e b)))
   \<and> (\<forall>b es. storage (page b) = Some (JSON_stringify (chats (page b))) \<and> \<not> chatsChanged (page b)
       \<longrightarrow> storage (page (run es b)) = Some (JSON_stringify (chats (page (run es b))))
           \<and> storage (page (run es b)) \<noteq> None)
   \<and> (\<forall>slot s. mount slot = Inr s
       \<longrightarrow> \<not> chatsChanged s
           \<and> (storage s = None \<or> storage s = Some []
              \<or> storage s = Some (JSON_stringify (chats s))))
   \<and> storage (page fresh_session) = None
   \<and> storage (page (run [NewChatClicked 1 1, DeleteClicked 0] fresh_session)) = Some (str ''[]'')
   \<and> chats (page (run [NewChatClicked 1 1, DeleteClicked 0] fresh_session)) = []
   \<and> JSON_stringify [] = str ''[]''"
  using step_write_syncs run_keeps_synced empty_list_persisted JSON_stringify_Nil mount_slot
  by (simp add: fresh_session_def initial_state_def)

theorem persisted_list_stays_present_witness:
  "storage (page (run [NewChatClicked 1 1] fresh_session))
     = Some (JSON_stringify (chats (page (run [NewChatClicked 1 1] fresh_session))))
   \<and> \<not> chatsChanged (page (run [NewChatClicked 1 1] fresh_session))
   \<and> chats (page (run [NewChatClicked 1 1] fresh_session)) = [newChat 1 1]
   \<and> storage (page (run [DeleteClicked 0] (run [NewChatClicked 1 1] fresh_session)))
       = Some (JSON_stringify (chats (page (run [DeleteClicked 0]
                (run [NewChatClicked 1 1] fresh_session)))))
   \<and> chats (page (run [DeleteClicked 0] (run [NewChatClicked 1 1] fresh_session))) = []"
proof -
  let ?b = "run [NewChatClicked 1 1] fresh_session"
  have b: "storage (page ?b) = Some (JSON_stringify (chats (page ?b)))"
    "\<not> chatsChanged (page ?b)" "chats (page ?b) = [newChat 1 1]"
    by (simp_all add: fresh_session_def initial_state_def createNewChat_def createFresh_def
          setChats_def commit_def saveEffect_def)
  have d: "chats (page (run [DeleteClicked 0] ?b)) = []"
    using b(3) by (simp add: deleteChat_def Let_def setChats_def newChat_def)
  from persisted_list_stays_present
  have "storage (page (run [DeleteClicked 0] ?b))
        = Some (JSON_stringify (chats (page (run [DeleteClicked 0] ?b))))"
    using b(1,2) by blast
  then show ?thesis using b d by simp
qed

section \<open>Further properties of the submission logic\<close>

text \<open>
  A submission with an empty or white-space-only input is rejected, from the Enter key and
  from the Send button alike: the session is unchanged and no request is made.
\<close>

theorem blank_input_is_rejected:
  assumes "list_all isWhiteSpace (inputText (page b))"
  shows "handleTranslate_begin t_id t_created t_msg (page b) = (None, page b)
       \<and> handle (EnterPressed False t_id t_created t_msg) b = b
       \<and> handle (SendClicked t_id t_created t_msg) b = b"
  using begin_rejects_blank [OF trim_whitespace_only [OF assms]]
  by (simp add: submit_def)

theorem blank_input_is_rejected_witness:
  "list_all isWhiteSpace (inputText (page (fresh_session\<lparr>page := (initial_state None)\<lparr>inputText := str '' ''\<rparr>\<rparr>)))
   \<and> handle (EnterPressed False 5 5 5)
        (fresh_session\<lparr>page := (initial_state None)\<lparr>inputText := str '' ''\<rparr>\<rparr>)
       = fresh_session\<lparr>page := (initial_state None)\<lparr>inputText := str '' ''\<rparr>\<rparr>"
  using blank_input_is_rejected
          [of "fresh_session\<lparr>page := (initial_state None)\<lparr>inputText := str '' ''\<rparr>\<rparr>" 5 5 5]
  by (simp add: str_def isWhiteSpace_def)

text \<open>
  While a request is in flight the Send button is disabled: a click on it changes nothing.
\<close>

theorem send_button_blocked_in_flight:
  assumes "isTranslating (page b)"
  shows "handle (SendClicked t_id t_created t_msg) b = b"
  using assms by (simp add: sendDisabled_def)

theorem send_button_blocked_in_flight_witness:
  "isTranslating (page (run [InputChanged (str ''Hi''), EnterPressed False 1000 1000 1000,
                             InputChanged (str ''Yo'')] fresh_session))
   \<and> handle (SendClicked 2000 2000 2000)
        (run [InputChanged (str ''Hi''), EnterPressed False 1000 1000 1000,
              InputChanged (str ''Yo'')] fresh_session)
       = run [InputChanged (str ''Hi''), EnterPressed False 1000 1000 1000,
              InputChanged (str ''Yo'')] fresh_session"
proof -
  have "isTranslating (page (run [InputChanged (str ''Hi''), EnterPressed False 1000 1000 1000,
                             InputChanged (str ''Yo'')] fresh_session))"
    by (simp add: eval_defs toString_not_Nil)
  from this send_button_blocked_in_flight [OF this] show ?thesis by simp
qed

text \<open>
  Every page reached from a fresh one by any events is well formed: no thread has the
  empty id and the active id, when set, names a thread of the list.
\<close>

theorem handlers_keep_page_wellFormed: "wellFormed (page (run es fresh_session))"
  by (rule wellFormed_reachable)

text \<open>
  Appending the answer or the error message to a thread that is no longer in the list (it
  was deleted while the request was in flight) leaves the thread list as it is.
\<close>

theorem settle_on_deleted_thread_keeps_list:
  assumes "activeChatId p \<notin> id_chat ` set (chats s)"
  shows "chats (handleTranslate_settle t p out s) = chats s"
proof -
  have "map (addMessage (activeChatId p) m) (chats s) = chats s" for m
    using assms by (intro map_idI) (force simp add: addMessage_def image_iff)
  then show ?thesis
    by (cases out) (simp_all add: handleTranslate_settle_def tryBlock_def setChats_def)
qed

theorem settle_on_deleted_thread_keeps_list_witness:
  "activeChatId \<lparr>activeChatId = toString 5, targetObj = LANGUAGES ! 1,
                  request = \<lparr>text_req = None, targetLang_req = None, sourceLang_req = None\<rparr>\<rparr>
     \<notin> id_chat ` set (chats (initial_state None))
   \<and> chats (handleTranslate_settle 9
        \<lparr>activeChatId = toString 5, targetObj = LANGUAGES ! 1,
         request = \<lparr>text_req = None, targetLang_req = None, sourceLang_req = None\<rparr>\<rparr>
        Rejected (initial_state None)) = []"
  using settle_on_deleted_thread_keeps_list
          [of "\<lparr>activeChatId = toString 5, targetObj = LANGUAGES ! 1,
                request = \<lparr>text_req = None, targetLang_req = None, sourceLang_req = None\<rparr>\<rparr>"
              "initial_state None" 9 Rejected]
  by (simp add: initial_state_def)

text \<open>
  Submitting \<open>Hello\<close> from English to French on a fresh page, with the translation
  \<open>Bonjour\<close> returned, gives one thread titled \<open>Hello...\<close> with two messages: the user's
  \<open>Hello\<close> labelled English and the assistant's \<open>Bonjour\<close> labelled with the French label.
\<close>

theorem hello_bonjour_scenario:
  "map title (chats (page (run [InputChanged (str ''Hello''), EnterPressed False 1000 1000 1000,
                               FetchSettled 0 (OkText (str ''Bonjour'')) 1005] fresh_session)))
     = [str ''Hello...'']
   \<and> map (\<lambda>m. (role m, text_msg m, langLabel m))
        (activeMessages (page (run [InputChanged (str ''Hello''),
                                    EnterPressed False 1000 1000 1000,
                                    FetchSettled 0 (OkText (str ''Bonjour'')) 1005] fresh_session)))
     = [(User, str ''Hello'', str ''English''),
        (Assistant, str ''Bonjour'', str ''Fran'' @ [0xE7] @ str ''ais'')]
   \<and> \<not> isTranslating (page (run [InputChanged (str ''Hello''), EnterPressed False 1000 1000 1000,
                               FetchSettled 0 (OkText (str ''Bonjour'')) 1005] fresh_session))
   \<and> inflight (run [InputChanged (str ''Hello''), EnterPressed False 1000 1000 1000,
                    FetchSettled 0 (OkText (str ''Bonjour'')) 1005] fresh_session) = []"
  by (simp add: eval_defs toString_not_Nil findLanguage_def LANGUAGES_def)

end
